theory Spec2Isabelle
  imports Main "HOL-Library.Word" "HOL-Library.Multiset"
begin

section \<open>Data model (library.go)\<close>

text \<open>
  Go's \<^verbatim>\<open>int\<close> is a 64-bit two's complement integer on the platforms the
  program is built for; \<^verbatim>\<open>+\<close> and \<^verbatim>\<open>-\<close> wrap, comparisons are signed.
  It is modelled as a 64-bit word, compared through \<open>sint\<close>.
\<close>

type_synonym go_int = "64 word"

text \<open>
  The structs \<^verbatim>\<open>Book\<close>, \<^verbatim>\<open>Account\<close> and \<^verbatim>\<open>Checkout\<close>. The fields \<^verbatim>\<open>ID\<close>
  and \<^verbatim>\<open>Name\<close> occur in two structs, so the record fields carry the struct's name.
\<close>

record Book =
  Book_ID :: go_int
  Book_Name :: string
  Book_Count :: go_int

record Account =
  Account_ID :: go_int
  Account_Name :: string

record Checkout =
  BookID :: go_int
  AccountID :: go_int

text \<open>
  The struct \<^verbatim>\<open>Library\<close>. Its four Go maps are partial functions. The values behind
  the pointers (\<^verbatim>\<open>*Book\<close>, \<^verbatim>\<open>*Account\<close>, \<^verbatim>\<open>*Checkout\<close>) are stored directly: every
  \<^verbatim>\<open>Book\<close> and \<^verbatim>\<open>Account\<close> is referenced from exactly one map entry, and a
  \<^verbatim>\<open>Checkout\<close> is never written after its creation. The mutex is left out: every
  operation holds it from entry to return, so operations are modelled as atomic steps.
\<close>

record Library =
  books :: "go_int \<rightharpoonup> Book"
  accounts :: "go_int \<rightharpoonup> Account"
  checkoutsByAccount :: "go_int \<rightharpoonup> Checkout list"
  checkoutsByBook :: "go_int \<rightharpoonup> Checkout list"

text \<open>
  The errors the package returns. The three package-level variables keep their names; an
  error built by \<^verbatim>\<open>fmt.Errorf\<close> is a constructor carrying the values its message is
  formatted from.
\<close>

datatype error =
    ErrBookNotExist
  | ErrAccountNotExist
  | ErrCheckoutNotExist
  | ErrBookAlreadyExists                \<comment> \<open>"book already exists"\<close>
  | ErrAddNegativeCopies                \<comment> \<open>"cannot add negative copies"\<close>
  | ErrRemoveNegativeCopies             \<comment> \<open>"cannot remove negative copies"\<close>
  | ErrRemoveMoreThanExist              \<comment> \<open>"cannot remove more copies than exist"\<close>
  | ErrRemoveMoreThanAvailable string go_int go_int
      \<comment> \<open>"cannot remove more copies of %s (%d) than are available to check out (%d)"\<close>
  | ErrAccountAlreadyExists             \<comment> \<open>"account already exists"\<close>
  | ErrCheckoutLimit string go_int
      \<comment> \<open>"%s (%d) cannot checkout more than 4 books at a time"\<close>
  | ErrDuplicateCheckout string go_int string go_int
      \<comment> \<open>"%s (%d) cannot checkout more than one copy of %s (%d)"\<close>
  | ErrExecUnknownCommand               \<comment> \<open>"exec: unknown command type, %T"\<close>
  | ErrMarshalUnknownCommand            \<comment> \<open>"marshal: unknown command type, %T"\<close>
  | ErrUnmarshalUnknownCommand string   \<comment> \<open>"unmarshal: unknown command type, %s"\<close>
  | ErrUnmarshalType                    \<comment> \<open>\<^verbatim>\<open>*json.UnmarshalTypeError\<close>\<close>
  | ErrUnexpectedEnd                    \<comment> \<open>\<^verbatim>\<open>*json.SyntaxError\<close>, "unexpected end of JSON input"\<close>
  | ErrFailedToRead error               \<comment> \<open>"failed to read library state, %w"\<close>
  | ErrFailedToWrite error              \<comment> \<open>"failed to write library state, %w"\<close>

section \<open>The state store (library.go)\<close>

text \<open>
  Indexing a Go map of slices at a missing key yields the nil slice, which has length 0
  and ranges over nothing.
\<close>

definition slice_at :: "(go_int \<rightharpoonup> Checkout list) \<Rightarrow> go_int \<Rightarrow> Checkout list" where
  "slice_at m k = (case m k of None \<Rightarrow> [] | Some cs \<Rightarrow> cs)"

definition New :: Library where
  "New = \<lparr>books = Map.empty, accounts = Map.empty,
          checkoutsByAccount = Map.empty, checkoutsByBook = Map.empty\<rparr>"

text \<open>
  Every operation returns the error (\<open>None\<close> for \<^verbatim>\<open>nil\<close>) together with the store as
  it is when the operation returns.
\<close>

definition AddBook :: "go_int \<Rightarrow> string \<Rightarrow> go_int \<Rightarrow> Library \<Rightarrow> error option \<times> Library" where
  "AddBook i name cnt l =
     (case books l i of
        Some _ \<Rightarrow> (Some ErrBookAlreadyExists, l)
      | None \<Rightarrow>
          if sint cnt < 0 then (Some ErrAddNegativeCopies, l)
          else (None, l\<lparr>books := (books l)(i \<mapsto>
                  \<lparr>Book_ID = i, Book_Name = name, Book_Count = cnt\<rparr>)\<rparr>))"

definition AddCopies :: "go_int \<Rightarrow> go_int \<Rightarrow> Library \<Rightarrow> error option \<times> Library" where
  "AddCopies i cnt l =
     (case books l i of
        None \<Rightarrow> (Some ErrBookNotExist, l)
      | Some book \<Rightarrow>
          if sint cnt < 0 then (Some ErrAddNegativeCopies, l)
          else (None, l\<lparr>books := (books l)(i \<mapsto>
                  book\<lparr>Book_Count := Book_Count book + cnt\<rparr>)\<rparr>))"

definition RemoveCopies :: "go_int \<Rightarrow> go_int \<Rightarrow> Library \<Rightarrow> error option \<times> Library" where
  "RemoveCopies i cnt l =
     (case books l i of
        None \<Rightarrow> (Some ErrBookNotExist, l)
      | Some book \<Rightarrow>
          if sint cnt < 0 then (Some ErrRemoveNegativeCopies, l)
          else if sint (Book_Count book) < sint cnt then (Some ErrRemoveMoreThanExist, l)
          else
            let available = Book_Count book
                  - of_nat (length (slice_at (checkoutsByBook l) (Book_ID book)))
            in if sint available < sint cnt
               then (Some (ErrRemoveMoreThanAvailable (Book_Name book) (Book_ID book) available), l)
               else (None, l\<lparr>books := (books l)(i \<mapsto>
                       book\<lparr>Book_Count := Book_Count book - cnt\<rparr>)\<rparr>))"

definition CreateAccount :: "go_int \<Rightarrow> string \<Rightarrow> Library \<Rightarrow> error option \<times> Library" where
  "CreateAccount i name l =
     (case accounts l i of
        Some _ \<Rightarrow> (Some ErrAccountAlreadyExists, l)
      | None \<Rightarrow> (None, l\<lparr>accounts := (accounts l)(i \<mapsto>
                  \<lparr>Account_ID = i, Account_Name = name\<rparr>)\<rparr>))"

text \<open>The closure \<^verbatim>\<open>matchCheckout\<close> of \<^verbatim>\<open>ReturnBook\<close>; \<^verbatim>\<open>CheckoutBook\<close> tests the same
  condition in its loop.\<close>

definition matchCheckout :: "Account \<Rightarrow> Book \<Rightarrow> Checkout \<Rightarrow> bool" where
  "matchCheckout account book checkout \<longleftrightarrow>
     AccountID checkout = Account_ID account \<and> BookID checkout = Book_ID book"

definition CheckoutBook :: "go_int \<Rightarrow> go_int \<Rightarrow> Library \<Rightarrow> error option \<times> Library" where
  "CheckoutBook accountID bookID l =
     (case accounts l accountID of
        None \<Rightarrow> (Some ErrAccountNotExist, l)
      | Some account \<Rightarrow>
     (case books l bookID of
        None \<Rightarrow> (Some ErrBookNotExist, l)
      | Some book \<Rightarrow>
          let checkouts = slice_at (checkoutsByAccount l) (Account_ID account) in
          if length checkouts \<ge> 4
          then (Some (ErrCheckoutLimit (Account_Name account) (Account_ID account)), l)
          else if list_ex (matchCheckout account book) checkouts
          then (Some (ErrDuplicateCheckout (Account_Name account) (Account_ID account)
                        (Book_Name book) (Book_ID book)), l)
          else
            let checkout = \<lparr>BookID = Book_ID book, AccountID = Account_ID account\<rparr> in
            (None, l\<lparr>checkoutsByAccount := (checkoutsByAccount l)(Account_ID account \<mapsto>
                        slice_at (checkoutsByAccount l) (Account_ID account) @ [checkout]),
                     checkoutsByBook := (checkoutsByBook l)(Book_ID book \<mapsto>
                        slice_at (checkoutsByBook l) (Book_ID book) @ [checkout])\<rparr>)))"

text \<open>\<^verbatim>\<open>slices.ContainsFunc\<close> is \<open>list_ex\<close>; \<^verbatim>\<open>slices.DeleteFunc\<close> keeps, in order, the
  elements that do not match.\<close>

definition ReturnBook :: "go_int \<Rightarrow> go_int \<Rightarrow> Library \<Rightarrow> error option \<times> Library" where
  "ReturnBook accountID bookID l =
     (case accounts l accountID of
        None \<Rightarrow> (Some ErrAccountNotExist, l)
      | Some account \<Rightarrow>
     (case books l bookID of
        None \<Rightarrow> (Some ErrBookNotExist, l)
      | Some book \<Rightarrow>
          if \<not> list_ex (matchCheckout account book)
                 (slice_at (checkoutsByAccount l) (Account_ID account))
          then (Some ErrCheckoutNotExist, l)
          else
            (None, l\<lparr>checkoutsByAccount := (checkoutsByAccount l)(Account_ID account \<mapsto>
                        filter (\<lambda>c. \<not> matchCheckout account book c)
                          (slice_at (checkoutsByAccount l) (Account_ID account))),
                     checkoutsByBook := (checkoutsByBook l)(Book_ID book \<mapsto>
                        filter (\<lambda>c. \<not> matchCheckout account book c)
                          (slice_at (checkoutsByBook l) (Book_ID book)))\<rparr>)))"

text \<open>The read accessors for the two indices.\<close>

definition CheckoutsByAccount :: "Library \<Rightarrow> go_int \<Rightarrow> Checkout list" where
  "CheckoutsByAccount l i = slice_at (checkoutsByAccount l) i"

definition CheckoutsByBook :: "Library \<Rightarrow> go_int \<Rightarrow> Checkout list" where
  "CheckoutsByBook l i = slice_at (checkoutsByBook l) i"

section \<open>Commands and their execution (the command layer)\<close>

text \<open>
  \<^verbatim>\<open>Invocation.Command\<close> has type \<^verbatim>\<open>any\<close>. The eight pointer types the package
  switches on are the first eight constructors, each with the fields of its struct in
  declaration order; \<open>Cmd_Other\<close> stands for a value of any other dynamic type.
\<close>

datatype command =
    Cmd_AddBook go_int string go_int       \<comment> \<open>\<^verbatim>\<open>ID, Name, Count\<close>\<close>
  | Cmd_AddCopies go_int go_int            \<comment> \<open>\<^verbatim>\<open>ID, Count\<close>\<close>
  | Cmd_RemoveCopies go_int go_int         \<comment> \<open>\<^verbatim>\<open>ID, Count\<close>\<close>
  | Cmd_CreateAccount go_int string        \<comment> \<open>\<^verbatim>\<open>ID, Name\<close>\<close>
  | Cmd_CheckoutBook go_int go_int         \<comment> \<open>\<^verbatim>\<open>AccountID, BookID\<close>\<close>
  | Cmd_ReturnBook go_int go_int           \<comment> \<open>\<^verbatim>\<open>AccountID, BookID\<close>\<close>
  | Cmd_PrintCatalog
  | Cmd_PrintAccounts
  | Cmd_Other

text \<open>
  \<^verbatim>\<open>Exec\<close> calls the store and returns its error. The narration it writes to
  \<^verbatim>\<open>inv.Output\<close>, with the read-only lookups made for it, is not part of the model:
  it changes neither the store nor the error. The two print commands only narrate.
\<close>

fun Exec :: "command \<Rightarrow> Library \<Rightarrow> error option \<times> Library" where
  "Exec (Cmd_AddBook i name cnt) l = AddBook i name cnt l"
| "Exec (Cmd_AddCopies i cnt) l = AddCopies i cnt l"
| "Exec (Cmd_RemoveCopies i cnt) l = RemoveCopies i cnt l"
| "Exec (Cmd_CreateAccount i name) l = CreateAccount i name l"
| "Exec (Cmd_CheckoutBook accountID bookID) l = CheckoutBook accountID bookID l"
| "Exec (Cmd_ReturnBook accountID bookID) l = ReturnBook accountID bookID l"
| "Exec Cmd_PrintCatalog l = (None, l)"
| "Exec Cmd_PrintAccounts l = (None, l)"
| "Exec Cmd_Other l = (Some ErrExecUnknownCommand, l)"

text \<open>The stores that some sequence of commands, failed ones included, builds from the
  empty store.\<close>

inductive reachable :: "Library \<Rightarrow> bool" where
  reachable_New: "reachable New"
| reachable_Exec: "reachable l \<Longrightarrow> reachable (snd (Exec cmd l))"

section \<open>JSON documents and \<^verbatim>\<open>encoding/json\<close>\<close>

text \<open>
  The package \<^verbatim>\<open>encoding/json\<close> belongs to Go's standard library, not to the
  repository; what the two methods of \<^verbatim>\<open>Invocation\<close> use of it is modelled after its
  documentation (Go 1.22, the version the repository builds with). It hands
  \<^verbatim>\<open>UnmarshalJSON\<close> the text of one syntactically valid
  JSON value, and \<^verbatim>\<open>json.RawMessage\<close> holds such a text or nothing. The model works
  on the parsed value. A number literal that is a plain decimal integer is \<open>JInt\<close>; any
  other number literal (with a fraction or an exponent) is \<open>JNumber\<close> with its text.
  A string of a value is the decoded string, which is valid UTF-8; the escaping of the
  text form is below this model.
\<close>

datatype json =
    JNull
  | JBool bool
  | JInt int
  | JNumber string
  | JString string
  | JArray "json list"
  | JObject "(string \<times> json) list"

text \<open>
  A struct as the reflection of \<^verbatim>\<open>encoding/json\<close> sees it: the fields in declaration
  order, each with the name of its \<^verbatim>\<open>json\<close> tag and its typed value.
\<close>

datatype field_value =
    IntValue go_int
  | StringValue string
  | RawValue "json option"      \<comment> \<open>\<^verbatim>\<open>json.RawMessage\<close>; \<open>None\<close> is the empty message\<close>

type_synonym struct = "(string \<times> field_value) list"

text \<open>
  A key of an object selects the field whose name it equals, or else the field whose
  name it equals after folding: ASCII letters to upper case, and the two letters outside
  ASCII whose case folding is an ASCII letter (U+017F, bytes C5 BF, to S; U+212A,
  bytes E2 84 AA, to K). Every other byte outside ASCII is kept as it is: it stays
  outside ASCII under folding, and all field names here are ASCII.
\<close>

fun foldName :: "string \<Rightarrow> string" where
  "foldName [] = []"
| "foldName (c # cs) =
     (if take 1 cs = [CHR 0xBF] \<and> c = CHR 0xC5 then CHR ''S'' # foldName (drop 1 cs)
      else if take 2 cs = [CHR 0x84, CHR 0xAA] \<and> c = CHR 0xE2 then CHR ''K'' # foldName (drop 2 cs)
      else if 97 \<le> (of_char c :: nat) \<and> (of_char c :: nat) \<le> 122
        then char_of (of_char c - 32 :: nat) # foldName cs
      else c # foldName cs)"

definition match_field :: "string list \<Rightarrow> string \<Rightarrow> string option" where
  "match_field names key =
     (case find (\<lambda>f. f = key) names of
        Some f \<Rightarrow> Some f
      | None \<Rightarrow> find (\<lambda>f. foldName f = foldName key) names)"

definition int_fits :: "int \<Rightarrow> bool" where
  "int_fits i \<longleftrightarrow> - (2 ^ 63) \<le> i \<and> i < 2 ^ 63"

text \<open>
  Storing a JSON value into a field: \<^verbatim>\<open>null\<close> leaves an \<^verbatim>\<open>int\<close> or a \<^verbatim>\<open>string\<close>
  as it is, an integer literal in range goes into an \<^verbatim>\<open>int\<close>, a string into a
  \<^verbatim>\<open>string\<close>, and a \<^verbatim>\<open>RawMessage\<close> takes any value (also \<^verbatim>\<open>null\<close>) as it is.
  Anything else is an \<^verbatim>\<open>UnmarshalTypeError\<close>; its detail fields are not modelled.
\<close>

fun decode_value :: "json \<Rightarrow> field_value \<Rightarrow> error + field_value" where
  "decode_value v (RawValue old) = Inr (RawValue (Some v))"
| "decode_value JNull old = Inr old"
| "decode_value (JInt i) (IntValue old) =
     (if int_fits i then Inr (IntValue (word_of_int i)) else Inl ErrUnmarshalType)"
| "decode_value (JString s) (StringValue old) = Inr (StringValue s)"
| "decode_value v old = Inl ErrUnmarshalType"

definition store_field :: "string \<Rightarrow> field_value \<Rightarrow> struct \<Rightarrow> struct" where
  "store_field f new s = map (\<lambda>(g, x). if g = f then (g, new) else (g, x)) s"

text \<open>The members of an object are stored in the order they are written, so of two
  members for one field the later one stays; a key that matches no field is skipped.\<close>

fun decode_object :: "(string \<times> json) list \<Rightarrow> struct \<Rightarrow> error + struct" where
  "decode_object [] s = Inr s"
| "decode_object ((key, v) # kvs) s =
     (case match_field (map fst s) key of
        None \<Rightarrow> decode_object kvs s
      | Some f \<Rightarrow>
          (case map_of s f of
             None \<Rightarrow> decode_object kvs s
           | Some old \<Rightarrow>
               (case decode_value v old of
                  Inl err \<Rightarrow> Inl err
                | Inr new \<Rightarrow> decode_object kvs (store_field f new s))))"

text \<open>
  \<^verbatim>\<open>json.Unmarshal(data, &s)\<close> for a struct \<open>s\<close>: empty data is "unexpected end of
  JSON input", \<^verbatim>\<open>null\<close> changes nothing, an object is stored member by member, and
  any other value is a type error.
\<close>

fun json_Unmarshal :: "json option \<Rightarrow> struct \<Rightarrow> error + struct" where
  "json_Unmarshal None s = Inl ErrUnexpectedEnd"
| "json_Unmarshal (Some JNull) s = Inr s"
| "json_Unmarshal (Some (JObject kvs)) s = decode_object kvs s"
| "json_Unmarshal (Some v) s = Inl ErrUnmarshalType"

text \<open>\<^verbatim>\<open>json.Marshal\<close> of a struct: an object with the fields in declaration order.\<close>

text \<open>
  A Go string is any sequence of bytes. \<^verbatim>\<open>json.Marshal\<close> writes a string rune by rune
  as \<^verbatim>\<open>utf8.DecodeRuneInString\<close> reads it, and writes U+FFFD (bytes EF BF BD) for
  every byte that does not start a valid encoding. \<open>rune_size c cs\<close> is the number of
  bytes of the valid encoding that starts with the byte \<open>c\<close> followed by \<open>cs\<close>, and
  0 when there is none.
\<close>

definition byte :: "char \<Rightarrow> nat" where
  "byte c = of_char c"

definition continuation :: "string \<Rightarrow> nat \<Rightarrow> nat \<Rightarrow> nat \<Rightarrow> bool" where
  "continuation cs k lo hi \<longleftrightarrow> k < length cs \<and> lo \<le> byte (cs ! k) \<and> byte (cs ! k) \<le> hi"

definition rune_size :: "char \<Rightarrow> string \<Rightarrow> nat" where
  "rune_size c cs =
     (let b = byte c in
      if b < 0x80 then 1
      else if 0xC2 \<le> b \<and> b \<le> 0xDF \<and> continuation cs 0 0x80 0xBF then 2
      else if b = 0xE0 \<and> continuation cs 0 0xA0 0xBF \<and> continuation cs 1 0x80 0xBF then 3
      else if (0xE1 \<le> b \<and> b \<le> 0xEC \<or> b = 0xEE \<or> b = 0xEF)
              \<and> continuation cs 0 0x80 0xBF \<and> continuation cs 1 0x80 0xBF then 3
      else if b = 0xED \<and> continuation cs 0 0x80 0x9F \<and> continuation cs 1 0x80 0xBF then 3
      else if b = 0xF0 \<and> continuation cs 0 0x90 0xBF \<and> continuation cs 1 0x80 0xBF
              \<and> continuation cs 2 0x80 0xBF then 4
      else if 0xF1 \<le> b \<and> b \<le> 0xF3 \<and> continuation cs 0 0x80 0xBF
              \<and> continuation cs 1 0x80 0xBF \<and> continuation cs 2 0x80 0xBF then 4
      else if b = 0xF4 \<and> continuation cs 0 0x80 0x8F \<and> continuation cs 1 0x80 0xBF
              \<and> continuation cs 2 0x80 0xBF then 4
      else 0)"

function coerce_utf8 :: "string \<Rightarrow> string" where
  "coerce_utf8 [] = []"
| "coerce_utf8 (c # cs) =
     (if rune_size c cs = 0 then [CHR 0xEF, CHR 0xBF, CHR 0xBD] @ coerce_utf8 cs
      else c # take (rune_size c cs - 1) cs @ coerce_utf8 (drop (rune_size c cs - 1) cs))"
  by pat_completeness auto
termination
  by (relation "measure length") simp_all

declare coerce_utf8.simps [simp del]

text \<open>A string is valid UTF-8 when every byte of it belongs to a valid encoding, that is,
  when encoding leaves it as it is.\<close>

definition valid_utf8 :: "string \<Rightarrow> bool" where
  "valid_utf8 s \<longleftrightarrow> coerce_utf8 s = s"

fun marshal_value :: "field_value \<Rightarrow> json" where
  "marshal_value (IntValue i) = JInt (sint i)"
| "marshal_value (StringValue s) = JString (coerce_utf8 s)"
| "marshal_value (RawValue None) = JNull"
| "marshal_value (RawValue (Some v)) = v"

definition json_Marshal :: "struct \<Rightarrow> json" where
  "json_Marshal s = JObject (map (\<lambda>(f, x). (f, marshal_value x)) s)"

text \<open>Reading a field of a decoded struct.\<close>

definition get_int :: "struct \<Rightarrow> string \<Rightarrow> go_int" where
  "get_int s f = (case map_of s f of Some (IntValue i) \<Rightarrow> i | _ \<Rightarrow> 0)"

definition get_string :: "struct \<Rightarrow> string \<Rightarrow> string" where
  "get_string s f = (case map_of s f of Some (StringValue x) \<Rightarrow> x | _ \<Rightarrow> [])"

definition get_raw :: "struct \<Rightarrow> string \<Rightarrow> json option" where
  "get_raw s f = (case map_of s f of Some (RawValue r) \<Rightarrow> r | _ \<Rightarrow> None)"

section \<open>Encoding and decoding an invocation\<close>

text \<open>The struct \<^verbatim>\<open>Command\<close> (\<^verbatim>\<open>Invocation.RawCommand\<close>) and the argument structs,
  with their \<^verbatim>\<open>json\<close> tags.\<close>

definition Command :: "string \<Rightarrow> json option \<Rightarrow> struct" where
  "Command name arguments = [(''name'', StringValue name), (''arguments'', RawValue arguments)]"

fun arguments_struct :: "command \<Rightarrow> struct" where
  "arguments_struct (Cmd_AddBook i name cnt) =
     [(''id'', IntValue i), (''name'', StringValue name), (''count'', IntValue cnt)]"
| "arguments_struct (Cmd_AddCopies i cnt) = [(''id'', IntValue i), (''count'', IntValue cnt)]"
| "arguments_struct (Cmd_RemoveCopies i cnt) = [(''id'', IntValue i), (''count'', IntValue cnt)]"
| "arguments_struct (Cmd_CreateAccount i name) = [(''id'', IntValue i), (''name'', StringValue name)]"
| "arguments_struct (Cmd_CheckoutBook accountID bookID) =
     [(''accountId'', IntValue accountID), (''bookId'', IntValue bookID)]"
| "arguments_struct (Cmd_ReturnBook accountID bookID) =
     [(''accountId'', IntValue accountID), (''bookId'', IntValue bookID)]"
| "arguments_struct Cmd_PrintCatalog = []"
| "arguments_struct Cmd_PrintAccounts = []"
| "arguments_struct Cmd_Other = []"

text \<open>The type switch of \<^verbatim>\<open>MarshalJSON\<close>; \<open>None\<close> is its default case.\<close>

fun command_name :: "command \<Rightarrow> string option" where
  "command_name (Cmd_AddBook i name cnt) = Some ''ADD_BOOK''"
| "command_name (Cmd_AddCopies i cnt) = Some ''ADD_COPIES''"
| "command_name (Cmd_RemoveCopies i cnt) = Some ''REMOVE_COPIES''"
| "command_name (Cmd_CreateAccount i name) = Some ''CREATE_ACCOUNT''"
| "command_name (Cmd_CheckoutBook accountID bookID) = Some ''CHECKOUT_BOOK''"
| "command_name (Cmd_ReturnBook accountID bookID) = Some ''RETURN_BOOK''"
| "command_name Cmd_PrintCatalog = Some ''PRINT_CATALOG''"
| "command_name Cmd_PrintAccounts = Some ''PRINT_ACCOUNTS''"
| "command_name Cmd_Other = None"

definition MarshalJSON :: "command \<Rightarrow> error + json" where
  "MarshalJSON cmd =
     (case command_name cmd of
        None \<Rightarrow> Inl ErrMarshalUnknownCommand
      | Some name \<Rightarrow>
          let bs = json_Marshal (arguments_struct cmd)
          in Inr (json_Marshal (Command name (Some bs))))"

text \<open>
  \<^verbatim>\<open>UnmarshalJSON\<close>: the record is decoded into a zero \<^verbatim>\<open>Command\<close>, the name selects
  the zero argument struct, and the raw arguments are decoded into it. The two print
  commands return before the arguments are looked at.
\<close>

definition decode_arguments :: "json option \<Rightarrow> command \<Rightarrow> (struct \<Rightarrow> command) \<Rightarrow> error + command" where
  "decode_arguments rbs zero build =
     (case json_Unmarshal rbs (arguments_struct zero) of
        Inl err \<Rightarrow> Inl err
      | Inr s \<Rightarrow> Inr (build s))"

definition UnmarshalJSON :: "json \<Rightarrow> error + command" where
  "UnmarshalJSON bs =
     (case json_Unmarshal (Some bs) (Command [] None) of
        Inl err \<Rightarrow> Inl err
      | Inr RawCommand \<Rightarrow>
          let rbs = get_raw RawCommand ''arguments'';
              name = get_string RawCommand ''name''
          in
          if name = ''ADD_BOOK'' then
            decode_arguments rbs (Cmd_AddBook 0 [] 0)
              (\<lambda>s. Cmd_AddBook (get_int s ''id'') (get_string s ''name'') (get_int s ''count''))
          else if name = ''ADD_COPIES'' then
            decode_arguments rbs (Cmd_AddCopies 0 0)
              (\<lambda>s. Cmd_AddCopies (get_int s ''id'') (get_int s ''count''))
          else if name = ''REMOVE_COPIES'' then
            decode_arguments rbs (Cmd_RemoveCopies 0 0)
              (\<lambda>s. Cmd_RemoveCopies (get_int s ''id'') (get_int s ''count''))
          else if name = ''CREATE_ACCOUNT'' then
            decode_arguments rbs (Cmd_CreateAccount 0 [])
              (\<lambda>s. Cmd_CreateAccount (get_int s ''id'') (get_string s ''name''))
          else if name = ''CHECKOUT_BOOK'' then
            decode_arguments rbs (Cmd_CheckoutBook 0 0)
              (\<lambda>s. Cmd_CheckoutBook (get_int s ''accountId'') (get_int s ''bookId''))
          else if name = ''RETURN_BOOK'' then
            decode_arguments rbs (Cmd_ReturnBook 0 0)
              (\<lambda>s. Cmd_ReturnBook (get_int s ''accountId'') (get_int s ''bookId''))
          else if name = ''PRINT_CATALOG'' then Inr Cmd_PrintCatalog
          else if name = ''PRINT_ACCOUNTS'' then Inr Cmd_PrintAccounts
          else Inl (ErrUnmarshalUnknownCommand name))"

definition command_names :: "string list" where
  "command_names = [''ADD_BOOK'', ''ADD_COPIES'', ''REMOVE_COPIES'', ''CREATE_ACCOUNT'',
                    ''CHECKOUT_BOOK'', ''RETURN_BOOK'', ''PRINT_CATALOG'', ''PRINT_ACCOUNTS'']"

section \<open>Export and import\<close>

text \<open>
  A \<^verbatim>\<open>range\<close> over a Go map visits every key once, in an order the language leaves
  open. \<^verbatim>\<open>Export\<close> therefore takes the three orders in which its loops visit the keys
  of \<^verbatim>\<open>books\<close>, \<^verbatim>\<open>accounts\<close> and \<^verbatim>\<open>checkoutsByAccount\<close>.
\<close>

definition iteration_order :: "(go_int \<rightharpoonup> 'v) \<Rightarrow> go_int list \<Rightarrow> bool" where
  "iteration_order m ks \<longleftrightarrow> distinct ks \<and> set ks = dom m"

definition exported_commands :: "go_int list \<Rightarrow> go_int list \<Rightarrow> go_int list \<Rightarrow> Library \<Rightarrow> command list" where
  "exported_commands bks aks cks l =
     List.map_filter (\<lambda>k. map_option
        (\<lambda>book. Cmd_AddBook (Book_ID book) (Book_Name book) (Book_Count book)) (books l k)) bks
     @ List.map_filter (\<lambda>k. map_option
        (\<lambda>account. Cmd_CreateAccount (Account_ID account) (Account_Name account)) (accounts l k)) aks
     @ concat (map (\<lambda>k. map (\<lambda>checkout. Cmd_CheckoutBook (AccountID checkout) (BookID checkout))
                            (slice_at (checkoutsByAccount l) k)) cks)"

text \<open>\<^verbatim>\<open>enc.Encode\<close> of each invocation in turn; the result is what was written, or the
  first error.\<close>

fun Encode :: "command list \<Rightarrow> error + json list" where
  "Encode [] = Inr []"
| "Encode (cmd # cmds) =
     (case MarshalJSON cmd of
        Inl err \<Rightarrow> Inl (ErrFailedToWrite err)
      | Inr bs \<Rightarrow> (case Encode cmds of Inl err \<Rightarrow> Inl err | Inr out \<Rightarrow> Inr (bs # out)))"

definition Export :: "go_int list \<Rightarrow> go_int list \<Rightarrow> go_int list \<Rightarrow> Library \<Rightarrow> error + json list" where
  "Export bks aks cks l = Encode (exported_commands bks aks cks l)"

text \<open>
  \<^verbatim>\<open>Import\<close> reads the JSON values of the stream one by one; the end of the stream
  ends the loop. \<^verbatim>\<open>LogOutput\<close> only prints the narration.
\<close>

fun Import :: "json list \<Rightarrow> Library \<Rightarrow> error option \<times> Library" where
  "Import [] l = (None, l)"
| "Import (bs # r) l =
     (case UnmarshalJSON bs of
        Inl err \<Rightarrow> (Some (ErrFailedToRead err), l)
      | Inr cmd \<Rightarrow>
          (case Exec cmd l of
             (Some err, l') \<Rightarrow> (Some err, l')
           | (None, l') \<Rightarrow> Import r l'))"

section \<open>Reachable stores and scenarios\<close>

text \<open>Running a sequence of commands; a failed command leaves the store to the next one.\<close>

definition run :: "command list \<Rightarrow> Library \<Rightarrow> Library" where
  "run cmds l = foldl (\<lambda>l cmd. snd (Exec cmd l)) l cmds"

text \<open>Executing commands in turn until one fails, as \<^verbatim>\<open>Import\<close> does with the
  commands it has decoded.\<close>

fun Exec_all :: "command list \<Rightarrow> Library \<Rightarrow> error option \<times> Library" where
  "Exec_all [] l = (None, l)"
| "Exec_all (cmd # cmds) l =
     (case Exec cmd l of
        (Some err, l') \<Rightarrow> (Some err, l')
      | (None, l') \<Rightarrow> Exec_all cmds l')"

text \<open>The scenario of the specification: one book with two copies, one account, and
  the account has checked the book out.\<close>

definition dune_scenario :: Library where
  "dune_scenario =
     snd (CheckoutBook 10 1 (snd (CreateAccount 10 ''Ada'' (snd (AddBook 1 ''Dune'' 2 New)))))"

text \<open>The same catalog and account before the checkout.\<close>

definition no_checkouts :: Library where
  "no_checkouts = run [Cmd_AddBook 1 ''Dune'' 2, Cmd_CreateAccount 10 ''Ada''] New"

text \<open>Five books and an account that has checked out four of them.\<close>

definition four_checkouts :: Library where
  "four_checkouts = run
     [Cmd_AddBook 1 ''Dune'' 2, Cmd_AddBook 2 ''Emma'' 2, Cmd_AddBook 3 ''Ulysses'' 2,
      Cmd_AddBook 4 ''Walden'' 2, Cmd_AddBook 5 ''Beloved'' 2, Cmd_CreateAccount 10 ''Ada'',
      Cmd_CheckoutBook 10 1, Cmd_CheckoutBook 10 2, Cmd_CheckoutBook 10 3,
      Cmd_CheckoutBook 10 4] New"

text \<open>A book without copies, checked out.\<close>

definition no_copies :: Library where
  "no_copies = run [Cmd_AddBook 1 ''Dune'' 0, Cmd_CreateAccount 10 ''Ada'',
     Cmd_CheckoutBook 10 1] New"

text \<open>A book whose count has wrapped around: the largest \<^verbatim>\<open>int\<close> plus one more copy.\<close>

definition overflowed :: Library where
  "overflowed = run [Cmd_AddBook 1 ''Dune'' 9223372036854775807, Cmd_AddCopies 1 1] New"

text \<open>A book whose name is the single byte FF, which is not valid UTF-8.\<close>

definition invalid_name :: Library where
  "invalid_name = run [Cmd_AddBook 1 [CHR 0xFF] 1] New"

section \<open>Consistency of a store\<close>

text \<open>
  The properties of a store that every command keeps: a record is filed under its own
  id; a list of the account index has at most four entries, no entry twice, and every
  entry names the account it is filed under, an existing account and book, and is also
  in the book index; a list of the book index has no entry twice and every entry is
  filed under its book and is also in the account index; the maps are finite.
\<close>

definition keys_are_ids :: "Library \<Rightarrow> bool" where
  "keys_are_ids l \<longleftrightarrow>
     (\<forall>k book. books l k = Some book \<longrightarrow> Book_ID book = k)
     \<and> (\<forall>k account. accounts l k = Some account \<longrightarrow> Account_ID account = k)"

definition account_index_ok :: "Library \<Rightarrow> bool" where
  "account_index_ok l \<longleftrightarrow>
     (\<forall>k. length (CheckoutsByAccount l k) \<le> 4 \<and> distinct (CheckoutsByAccount l k)
        \<and> (\<forall>c \<in> set (CheckoutsByAccount l k).
              AccountID c = k \<and> accounts l k \<noteq> None \<and> books l (BookID c) \<noteq> None
              \<and> c \<in> set (CheckoutsByBook l (BookID c))))"

definition book_index_ok :: "Library \<Rightarrow> bool" where
  "book_index_ok l \<longleftrightarrow>
     (\<forall>k. distinct (CheckoutsByBook l k)
        \<and> (\<forall>c \<in> set (CheckoutsByBook l k).
              BookID c = k \<and> c \<in> set (CheckoutsByAccount l (AccountID c))))"

definition finite_maps :: "Library \<Rightarrow> bool" where
  "finite_maps l \<longleftrightarrow> finite (dom (books l)) \<and> finite (dom (accounts l))
     \<and> finite (dom (checkoutsByAccount l)) \<and> finite (dom (checkoutsByBook l))"

definition store_ok :: "Library \<Rightarrow> bool" where
  "store_ok l \<longleftrightarrow> keys_are_ids l \<and> account_index_ok l \<and> book_index_ok l \<and> finite_maps l"

text \<open>The name a command carries, if any, and the stores whose names are all valid
  UTF-8 (as every name is that \<^verbatim>\<open>Import\<close> has decoded).\<close>

fun command_text :: "command \<Rightarrow> string" where
  "command_text (Cmd_AddBook i name cnt) = name"
| "command_text (Cmd_CreateAccount i name) = name"
| "command_text cmd = []"

definition names_valid_utf8 :: "Library \<Rightarrow> bool" where
  "names_valid_utf8 l \<longleftrightarrow>
     (\<forall>k book. books l k = Some book \<longrightarrow> valid_utf8 (Book_Name book))
     \<and> (\<forall>k account. accounts l k = Some account \<longrightarrow> valid_utf8 (Account_Name account))"

text \<open>No count of a book has wrapped around to a negative number.\<close>

definition counts_not_negative :: "Library \<Rightarrow> bool" where
  "counts_not_negative l \<longleftrightarrow> (\<forall>k book. books l k = Some book \<longrightarrow> 0 \<le> sint (Book_Count book))"

section \<open>Auxiliary facts\<close>

lemmas eval_defs = run_def New_def AddBook_def AddCopies_def RemoveCopies_def CreateAccount_def
  CheckoutBook_def ReturnBook_def slice_at_def matchCheckout_def Let_def

text \<open>The strings of the scenarios and the command names are ASCII.\<close>

lemma coerce_utf8_literals:
  "coerce_utf8 [] = []"
  "coerce_utf8 ''ADD_BOOK'' = ''ADD_BOOK''"
  "coerce_utf8 ''ADD_COPIES'' = ''ADD_COPIES''"
  "coerce_utf8 ''REMOVE_COPIES'' = ''REMOVE_COPIES''"
  "coerce_utf8 ''CREATE_ACCOUNT'' = ''CREATE_ACCOUNT''"
  "coerce_utf8 ''CHECKOUT_BOOK'' = ''CHECKOUT_BOOK''"
  "coerce_utf8 ''RETURN_BOOK'' = ''RETURN_BOOK''"
  "coerce_utf8 ''PRINT_CATALOG'' = ''PRINT_CATALOG''"
  "coerce_utf8 ''PRINT_ACCOUNTS'' = ''PRINT_ACCOUNTS''"
  "coerce_utf8 ''Dune'' = ''Dune''"
  "coerce_utf8 ''Emma'' = ''Emma''"
  "coerce_utf8 ''Ada'' = ''Ada''"
  by code_simp+

lemmas json_defs = UnmarshalJSON_def MarshalJSON_def json_Marshal_def Command_def
  match_field_def get_raw_def get_string_def get_int_def decode_arguments_def store_field_def
  coerce_utf8_literals

lemma slice_at_upd: "slice_at (m(k \<mapsto> v)) k' = (if k' = k then v else slice_at m k')"
  by (simp add: slice_at_def)

lemma sint_minus_length:
  fixes a :: go_int
  assumes "0 \<le> sint a" and "n < 2 ^ 63"
  shows "sint (a - of_nat n) = sint a - int n"
proof -
  have a: "sint a < 2 ^ 63" using sint_lt [of a] by simp
  have n: "sint (of_nat n :: go_int) = int n"
    using assms(2) by (simp add: signed_of_nat signed_take_bit_int_eq_self_iff) 
  have "sint (a - of_nat n) = signed_take_bit 63 (sint a - sint (of_nat n :: go_int))"
    by (simp add: sint_word_ariths)
  also have "\<dots> = sint a - int n"
    using assms a n by (simp add: signed_take_bit_int_eq_self_iff)
  finally show ?thesis .
qed

lemma sint_minus_nonneg:
  fixes a c :: go_int
  assumes "0 \<le> sint c" and "sint c \<le> sint a"
  shows "sint (a - c) = sint a - sint c"
proof -
  have a: "sint a < 2 ^ 63" using sint_lt [of a] by simp
  have "sint (a - c) = signed_take_bit 63 (sint a - sint c)"
    by (simp add: sint_word_ariths)
  also have "\<dots> = sint a - sint c"
    using assms a by (simp add: signed_take_bit_int_eq_self_iff)
  finally show ?thesis .
qed

lemma sint_word_of_int_fits: "int_fits i \<Longrightarrow> sint (word_of_int i :: go_int) = i"
  by (simp add: int_fits_def signed_of_int signed_take_bit_int_eq_self_iff)

lemma filter_no_match: "\<not> list_ex P cs \<Longrightarrow> filter (\<lambda>c. \<not> P c) cs = cs"
  by (induction cs) auto

lemma matchCheckout_iff:
  "matchCheckout account book c \<longleftrightarrow> c = \<lparr>BookID = Book_ID book, AccountID = Account_ID account\<rparr>"
  by (cases c) (auto simp: matchCheckout_def)

lemma list_ex_matchCheckout:
  "list_ex (matchCheckout account book) cs
     \<longleftrightarrow> \<lparr>BookID = Book_ID book, AccountID = Account_ID account\<rparr> \<in> set cs"
  by (auto simp: list_ex_iff matchCheckout_iff)

lemma mset_eq_two:
  assumes "mset xs = mset [a, b]"
  shows "xs = [a, b] \<or> xs = [b, a]"
proof -
  have "length xs = 2" using assms [THEN arg_cong, of size] by simp
  then obtain x y where xs: "xs = [x, y]"
    by (cases xs; cases "tl xs"; cases "tl (tl xs)") auto
  with assms show ?thesis
    by (auto simp: add_eq_conv_ex)
qed

lemma mset_eq_three:
  assumes "mset xs = mset [a, b, c]"
  shows "xs = [a, b, c] \<or> xs = [a, c, b] \<or> xs = [b, a, c] \<or> xs = [b, c, a]
     \<or> xs = [c, a, b] \<or> xs = [c, b, a]"
proof -
  have "length xs = 3" using assms [THEN arg_cong, of size] by simp
  then obtain x ys where xs: "xs = x # ys" and l: "length ys = 2"
    by (cases xs) auto
  have "x \<in># mset [a, b, c]" using assms xs by (metis list.set_intros(1) set_mset_mset)
  then consider "x = a" | "x = b" | "x = c" by auto
  then show ?thesis
  proof cases
    case 1
    with assms xs have "mset ys = mset [b, c]" by simp
    from mset_eq_two [OF this] 1 xs show ?thesis by auto
  next
    case 2
    with assms xs have "mset ys = mset [a, c]" by simp
    from mset_eq_two [OF this] 2 xs show ?thesis by auto
  next
    case 3
    with assms xs have "add_mset c (mset ys) = add_mset c (mset [a, b])"
      by (simp add: add_mset_commute)
    then have "mset ys = mset [a, b]" by simp
    from mset_eq_two [OF this] 3 xs show ?thesis by auto
  qed
qed

lemma decode_object_AddBook:
  assumes "int_fits i" "int_fits c"
    and "mset args = mset [(''id'', JInt i), (''name'', JString s), (''count'', JInt c)]"
  shows "decode_object args [(''id'', IntValue 0), (''name'', StringValue []), (''count'', IntValue 0)]
     = Inr [(''id'', IntValue (word_of_int i)), (''name'', StringValue s),
            (''count'', IntValue (word_of_int c))]"
  using mset_eq_three [OF assms(3)] assms(1,2)
  by (elim disjE) (simp_all add: json_defs)

text \<open>Keys that differ from a field name only by case folding select the field.\<close>

lemma match_field_folds:
  "match_field [''name'', ''arguments''] ''Name'' = Some ''name''
   \<and> match_field [''name'', ''arguments''] ''ARGUMENTS'' = Some ''arguments''
   \<and> match_field [''accountId'', ''bookId''] [CHR ''b'', CHR ''o'', CHR ''o'', CHR 0xE2, CHR 0x84, CHR 0xAA, CHR ''I'', CHR ''d''] = Some ''bookId''
   \<and> match_field [''name'', ''arguments''] ''names'' = None"
  by code_simp

subsection \<open>The scenarios, evaluated\<close>

lemma dune_scenario_eq:
  "dune_scenario = \<lparr>books = [1 \<mapsto> \<lparr>Book_ID = 1, Book_Name = ''Dune'', Book_Count = 2\<rparr>],
      accounts = [10 \<mapsto> \<lparr>Account_ID = 10, Account_Name = ''Ada''\<rparr>],
      checkoutsByAccount = [10 \<mapsto> [\<lparr>BookID = 1, AccountID = 10\<rparr>]],
      checkoutsByBook = [1 \<mapsto> [\<lparr>BookID = 1, AccountID = 10\<rparr>]]\<rparr>"
  by (simp add: dune_scenario_def AddBook_def CreateAccount_def CheckoutBook_def New_def Let_def
      slice_at_def matchCheckout_def Let_def)

lemma four_checkouts_eq:
  "four_checkouts = \<lparr>books = [1 \<mapsto> \<lparr>Book_ID = 1, Book_Name = ''Dune'', Book_Count = 2\<rparr>,
        2 \<mapsto> \<lparr>Book_ID = 2, Book_Name = ''Emma'', Book_Count = 2\<rparr>,
        3 \<mapsto> \<lparr>Book_ID = 3, Book_Name = ''Ulysses'', Book_Count = 2\<rparr>,
        4 \<mapsto> \<lparr>Book_ID = 4, Book_Name = ''Walden'', Book_Count = 2\<rparr>,
        5 \<mapsto> \<lparr>Book_ID = 5, Book_Name = ''Beloved'', Book_Count = 2\<rparr>],
      accounts = [10 \<mapsto> \<lparr>Account_ID = 10, Account_Name = ''Ada''\<rparr>],
      checkoutsByAccount = [10 \<mapsto> [\<lparr>BookID = 1, AccountID = 10\<rparr>, \<lparr>BookID = 2, AccountID = 10\<rparr>,
         \<lparr>BookID = 3, AccountID = 10\<rparr>, \<lparr>BookID = 4, AccountID = 10\<rparr>]],
      checkoutsByBook = [1 \<mapsto> [\<lparr>BookID = 1, AccountID = 10\<rparr>], 2 \<mapsto> [\<lparr>BookID = 2, AccountID = 10\<rparr>],
         3 \<mapsto> [\<lparr>BookID = 3, AccountID = 10\<rparr>], 4 \<mapsto> [\<lparr>BookID = 4, AccountID = 10\<rparr>]]\<rparr>"
  by (simp add: four_checkouts_def eval_defs)

lemma no_checkouts_eq:
  "no_checkouts = \<lparr>books = [1 \<mapsto> \<lparr>Book_ID = 1, Book_Name = ''Dune'', Book_Count = 2\<rparr>],
      accounts = [10 \<mapsto> \<lparr>Account_ID = 10, Account_Name = ''Ada''\<rparr>],
      checkoutsByAccount = Map.empty, checkoutsByBook = Map.empty\<rparr>"
  by (simp add: no_checkouts_def eval_defs)

lemma no_copies_eq:
  "no_copies = \<lparr>books = [1 \<mapsto> \<lparr>Book_ID = 1, Book_Name = ''Dune'', Book_Count = 0\<rparr>],
      accounts = [10 \<mapsto> \<lparr>Account_ID = 10, Account_Name = ''Ada''\<rparr>],
      checkoutsByAccount = [10 \<mapsto> [\<lparr>BookID = 1, AccountID = 10\<rparr>]],
      checkoutsByBook = [1 \<mapsto> [\<lparr>BookID = 1, AccountID = 10\<rparr>]]\<rparr>"
  by (simp add: no_copies_def eval_defs)

lemma overflowed_eq:
  "overflowed = \<lparr>books = [1 \<mapsto> \<lparr>Book_ID = 1, Book_Name = ''Dune'', Book_Count = 9223372036854775808\<rparr>],
      accounts = Map.empty, checkoutsByAccount = Map.empty, checkoutsByBook = Map.empty\<rparr>"
  by (simp add: overflowed_def eval_defs)

subsection \<open>What an operation does when it succeeds and when it fails\<close>

lemma AddBook_None:
  assumes "AddBook i name cnt l = (None, l')"
  shows "books l i = None \<and> 0 \<le> sint cnt
     \<and> l' = l\<lparr>books := (books l)(i \<mapsto> \<lparr>Book_ID = i, Book_Name = name, Book_Count = cnt\<rparr>)\<rparr>"
  using assms by (auto simp: AddBook_def split: option.splits if_splits)

lemma AddCopies_None:
  assumes "AddCopies i cnt l = (None, l')"
  shows "\<exists>book. books l i = Some book \<and> 0 \<le> sint cnt
     \<and> l' = l\<lparr>books := (books l)(i \<mapsto> book\<lparr>Book_Count := Book_Count book + cnt\<rparr>)\<rparr>"
  using assms by (auto simp: AddCopies_def split: option.splits if_splits)

lemma RemoveCopies_None:
  assumes "RemoveCopies i cnt l = (None, l')"
  shows "\<exists>book. books l i = Some book
     \<and> l' = l\<lparr>books := (books l)(i \<mapsto> book\<lparr>Book_Count := Book_Count book - cnt\<rparr>)\<rparr>"
  using assms by (auto simp: RemoveCopies_def Let_def split: option.splits if_splits)

lemma CreateAccount_None:
  assumes "CreateAccount i name l = (None, l')"
  shows "accounts l i = None
     \<and> l' = l\<lparr>accounts := (accounts l)(i \<mapsto> \<lparr>Account_ID = i, Account_Name = name\<rparr>)\<rparr>"
  using assms by (auto simp: CreateAccount_def split: option.splits if_splits)

lemma CheckoutBook_None:
  assumes "CheckoutBook a b l = (None, l')"
  shows "\<exists>account book. accounts l a = Some account \<and> books l b = Some book
     \<and> length (CheckoutsByAccount l (Account_ID account)) < 4
     \<and> \<lparr>BookID = Book_ID book, AccountID = Account_ID account\<rparr>
          \<notin> set (CheckoutsByAccount l (Account_ID account))
     \<and> l' = l\<lparr>checkoutsByAccount := (checkoutsByAccount l)(Account_ID account \<mapsto>
                 CheckoutsByAccount l (Account_ID account)
                   @ [\<lparr>BookID = Book_ID book, AccountID = Account_ID account\<rparr>]),
               checkoutsByBook := (checkoutsByBook l)(Book_ID book \<mapsto>
                 CheckoutsByBook l (Book_ID book)
                   @ [\<lparr>BookID = Book_ID book, AccountID = Account_ID account\<rparr>])\<rparr>"
  using assms
  by (auto simp: CheckoutBook_def Let_def list_ex_matchCheckout CheckoutsByAccount_def
      CheckoutsByBook_def split: option.splits if_splits)

lemma ReturnBook_None:
  assumes "ReturnBook a b l = (None, l')"
  shows "\<exists>account book. accounts l a = Some account \<and> books l b = Some book
     \<and> \<lparr>BookID = Book_ID book, AccountID = Account_ID account\<rparr>
          \<in> set (CheckoutsByAccount l (Account_ID account))
     \<and> l' = l\<lparr>checkoutsByAccount := (checkoutsByAccount l)(Account_ID account \<mapsto>
                 filter (\<lambda>c. c \<noteq> \<lparr>BookID = Book_ID book, AccountID = Account_ID account\<rparr>)
                   (CheckoutsByAccount l (Account_ID account))),
               checkoutsByBook := (checkoutsByBook l)(Book_ID book \<mapsto>
                 filter (\<lambda>c. c \<noteq> \<lparr>BookID = Book_ID book, AccountID = Account_ID account\<rparr>)
                   (CheckoutsByBook l (Book_ID book)))\<rparr>"
  using assms
  by (auto simp: ReturnBook_def Let_def list_ex_matchCheckout matchCheckout_iff
      CheckoutsByAccount_def CheckoutsByBook_def split: option.splits if_splits)

lemma AddBook_Some: "AddBook i name cnt l = (Some e, l') \<Longrightarrow> l' = l"
  by (auto simp: AddBook_def split: option.splits if_splits)
lemma AddCopies_Some: "AddCopies i cnt l = (Some e, l') \<Longrightarrow> l' = l"
  by (auto simp: AddCopies_def split: option.splits if_splits)
lemma RemoveCopies_Some: "RemoveCopies i cnt l = (Some e, l') \<Longrightarrow> l' = l"
  by (auto simp: RemoveCopies_def Let_def split: option.splits if_splits)
lemma CreateAccount_Some: "CreateAccount i name l = (Some e, l') \<Longrightarrow> l' = l"
  by (auto simp: CreateAccount_def split: option.splits if_splits)
lemma CheckoutBook_Some: "CheckoutBook a b l = (Some e, l') \<Longrightarrow> l' = l"
  by (auto simp: CheckoutBook_def Let_def split: option.splits if_splits)
lemma ReturnBook_Some: "ReturnBook a b l = (Some e, l') \<Longrightarrow> l' = l"
  by (auto simp: ReturnBook_def Let_def split: option.splits if_splits)

lemma Exec_Some: "Exec cmd l = (Some e, l') \<Longrightarrow> l' = l"
  by (cases cmd)
    (auto dest: AddBook_Some AddCopies_Some RemoveCopies_Some CreateAccount_Some
      CheckoutBook_Some ReturnBook_Some)

subsection \<open>Every reachable store is consistent\<close>

lemma store_ok_New: "store_ok New"
  by (simp add: store_ok_def keys_are_ids_def account_index_ok_def book_index_ok_def
      finite_maps_def New_def CheckoutsByAccount_def CheckoutsByBook_def slice_at_def)

lemma books_update_ok:
  assumes ok: "store_ok l" and dom: "books l i \<noteq> None \<or> Book_ID book = i"
    and old: "\<And>old. books l i = Some old \<Longrightarrow> Book_ID book = Book_ID old"
  shows "store_ok (l\<lparr>books := (books l)(i \<mapsto> book)\<rparr>)"
proof -
  have id: "Book_ID book = i"
    using dom old ok by (auto simp: store_ok_def keys_are_ids_def)
  have "keys_are_ids (l\<lparr>books := (books l)(i \<mapsto> book)\<rparr>)"
    using ok id by (auto simp: store_ok_def keys_are_ids_def)
  moreover have "account_index_ok (l\<lparr>books := (books l)(i \<mapsto> book)\<rparr>)"
    using ok by (auto simp: store_ok_def account_index_ok_def CheckoutsByAccount_def CheckoutsByBook_def)
  moreover have "book_index_ok (l\<lparr>books := (books l)(i \<mapsto> book)\<rparr>)"
    using ok by (auto simp: store_ok_def book_index_ok_def CheckoutsByAccount_def CheckoutsByBook_def)
  moreover have "finite_maps (l\<lparr>books := (books l)(i \<mapsto> book)\<rparr>)"
    using ok by (auto simp: store_ok_def finite_maps_def)
  ultimately show ?thesis by (simp add: store_ok_def)
qed

lemma accounts_update_ok:
  assumes ok: "store_ok l"
  shows "store_ok (l\<lparr>accounts := (accounts l)(i \<mapsto> \<lparr>Account_ID = i, Account_Name = name\<rparr>)\<rparr>)"
    (is "store_ok ?l'")
proof -
  have "keys_are_ids ?l'"
    using ok by (auto simp: store_ok_def keys_are_ids_def)
  moreover have "account_index_ok ?l'"
    using ok by (auto simp: store_ok_def account_index_ok_def CheckoutsByAccount_def CheckoutsByBook_def)
  moreover have "book_index_ok ?l'"
    using ok by (auto simp: store_ok_def book_index_ok_def CheckoutsByAccount_def CheckoutsByBook_def)
  moreover have "finite_maps ?l'"
    using ok by (auto simp: store_ok_def finite_maps_def)
  ultimately show ?thesis by (simp add: store_ok_def)
qed

lemma checkout_ok:
  assumes ok: "store_ok l"
    and a: "accounts l a = Some account" and b: "books l b = Some book"
    and len: "length (CheckoutsByAccount l a) < 4"
    and new: "\<lparr>BookID = b, AccountID = a\<rparr> \<notin> set (CheckoutsByAccount l a)"
  shows "store_ok (l\<lparr>checkoutsByAccount := (checkoutsByAccount l)(a \<mapsto>
                 CheckoutsByAccount l a @ [\<lparr>BookID = b, AccountID = a\<rparr>]),
               checkoutsByBook := (checkoutsByBook l)(b \<mapsto>
                 CheckoutsByBook l b @ [\<lparr>BookID = b, AccountID = a\<rparr>])\<rparr>)"
    (is "store_ok ?l'")
proof -
  let ?c = "\<lparr>BookID = b, AccountID = a\<rparr>"
  have A: "account_index_ok l" and B: "book_index_ok l"
    using ok by (simp_all add: store_ok_def)
  have cba: "CheckoutsByAccount ?l' k = (if k = a then CheckoutsByAccount l a @ [?c]
      else CheckoutsByAccount l k)" for k
    by (simp add: CheckoutsByAccount_def slice_at_upd)
  have cbb: "CheckoutsByBook ?l' k = (if k = b then CheckoutsByBook l b @ [?c]
      else CheckoutsByBook l k)" for k
    by (simp add: CheckoutsByBook_def slice_at_upd)
  have newb: "?c \<notin> set (CheckoutsByBook l b)"
  proof
    assume "?c \<in> set (CheckoutsByBook l b)"
    with B have "?c \<in> set (CheckoutsByAccount l (AccountID ?c))"
      unfolding book_index_ok_def by blast
    with new show False by simp
  qed
  have bk [simp]: "books ?l' = books l" and ac [simp]: "accounts ?l' = accounts l"
    by simp_all
  have "keys_are_ids ?l'"
    using ok by (simp add: store_ok_def keys_are_ids_def)
  moreover have "account_index_ok ?l'"
    unfolding account_index_ok_def
  proof (intro allI conjI ballI)
    fix k
    show "length (CheckoutsByAccount ?l' k) \<le> 4"
      using A len by (simp add: cba account_index_ok_def)
    show "distinct (CheckoutsByAccount ?l' k)"
      using A new by (simp add: cba account_index_ok_def)
    fix c assume c: "c \<in> set (CheckoutsByAccount ?l' k)"
    show "AccountID c = k"
      using A c by (auto simp: cba account_index_ok_def split: if_splits)
    show "accounts ?l' k \<noteq> None"
      using A c a by (auto simp: cba account_index_ok_def split: if_splits)
    show "books ?l' (BookID c) \<noteq> None"
      using A c b by (auto simp: cba account_index_ok_def split: if_splits)
    show "c \<in> set (CheckoutsByBook ?l' (BookID c))"
      using A c by (auto simp: cba cbb account_index_ok_def split: if_splits)
  qed
  moreover have "book_index_ok ?l'"
    unfolding book_index_ok_def
  proof (intro allI conjI ballI)
    fix k
    show "distinct (CheckoutsByBook ?l' k)"
      using B newb by (simp add: cbb book_index_ok_def)
    fix c assume c: "c \<in> set (CheckoutsByBook ?l' k)"
    show "BookID c = k"
      using B c by (auto simp: cbb book_index_ok_def split: if_splits)
    show "c \<in> set (CheckoutsByAccount ?l' (AccountID c))"
      using B c by (auto simp: cba cbb book_index_ok_def split: if_splits)
  qed
  moreover have "finite_maps ?l'"
    using ok by (simp add: store_ok_def finite_maps_def)
  ultimately show ?thesis by (simp add: store_ok_def)
qed

lemma return_ok:
  assumes ok: "store_ok l"
  shows "store_ok (l\<lparr>checkoutsByAccount := (checkoutsByAccount l)(a \<mapsto>
                 filter (\<lambda>c. c \<noteq> \<lparr>BookID = b, AccountID = a\<rparr>) (CheckoutsByAccount l a)),
               checkoutsByBook := (checkoutsByBook l)(b \<mapsto>
                 filter (\<lambda>c. c \<noteq> \<lparr>BookID = b, AccountID = a\<rparr>) (CheckoutsByBook l b))\<rparr>)"
    (is "store_ok ?l'")
proof -
  let ?c = "\<lparr>BookID = b, AccountID = a\<rparr>"
  have A: "account_index_ok l" and B: "book_index_ok l"
    using ok by (simp_all add: store_ok_def)
  have cba: "CheckoutsByAccount ?l' k = (if k = a then filter (\<lambda>c. c \<noteq> ?c) (CheckoutsByAccount l a)
      else CheckoutsByAccount l k)" for k
    by (simp add: CheckoutsByAccount_def slice_at_upd)
  have cbb: "CheckoutsByBook ?l' k = (if k = b then filter (\<lambda>c. c \<noteq> ?c) (CheckoutsByBook l b)
      else CheckoutsByBook l k)" for k
    by (simp add: CheckoutsByBook_def slice_at_upd)
  have bk [simp]: "books ?l' = books l" and ac [simp]: "accounts ?l' = accounts l"
    by simp_all
  have "keys_are_ids ?l'"
    using ok by (simp add: store_ok_def keys_are_ids_def)
  moreover have "account_index_ok ?l'"
    unfolding account_index_ok_def
  proof (intro allI conjI ballI)
    fix k
    have le: "length (CheckoutsByAccount l k) \<le> 4" for k
      using A by (simp add: account_index_ok_def)
    have "length (filter (\<lambda>c. c \<noteq> ?c) (CheckoutsByAccount l a)) \<le> 4"
      using le [of a] length_filter_le [of "\<lambda>c. c \<noteq> ?c" "CheckoutsByAccount l a"]
      by (rule_tac order_trans)
    then show "length (CheckoutsByAccount ?l' k) \<le> 4"
      using le [of k] unfolding cba by (cases "k = a") simp_all
    show "distinct (CheckoutsByAccount ?l' k)"
      using A by (simp add: cba account_index_ok_def)
    fix c assume c: "c \<in> set (CheckoutsByAccount ?l' k)"
    then have c0: "c \<in> set (CheckoutsByAccount l k)"
      by (auto simp: cba split: if_splits)
    show k: "AccountID c = k"
      using A c0 by (auto simp: account_index_ok_def)
    show "accounts ?l' k \<noteq> None"
      using A c0 by (auto simp: account_index_ok_def)
    show "books ?l' (BookID c) \<noteq> None"
      using A c0 by (auto simp: account_index_ok_def)
    have "c \<noteq> ?c"
    proof (cases "k = a")
      case True
      with c show ?thesis by (simp add: cba)
    next
      case False
      with k show ?thesis by auto
    qed
    then show "c \<in> set (CheckoutsByBook ?l' (BookID c))"
      using A c0 by (auto simp: cbb account_index_ok_def)
  qed
  moreover have "book_index_ok ?l'"
    unfolding book_index_ok_def
  proof (intro allI conjI ballI)
    fix k
    show "distinct (CheckoutsByBook ?l' k)"
      using B by (simp add: cbb book_index_ok_def)
    fix c assume c: "c \<in> set (CheckoutsByBook ?l' k)"
    then have c0: "c \<in> set (CheckoutsByBook l k)"
      by (auto simp: cbb split: if_splits)
    show k: "BookID c = k"
      using B c0 by (auto simp: book_index_ok_def)
    have "c \<noteq> ?c"
    proof (cases "k = b")
      case True
      with c show ?thesis by (simp add: cbb)
    next
      case False
      with k show ?thesis by auto
    qed
    then show "c \<in> set (CheckoutsByAccount ?l' (AccountID c))"
      using B c0 by (auto simp: cba book_index_ok_def)
  qed
  moreover have "finite_maps ?l'"
    using ok by (simp add: store_ok_def finite_maps_def)
  ultimately show ?thesis by (simp add: store_ok_def)
qed

lemma Exec_store_ok:
  assumes ok: "store_ok l"
  shows "store_ok (snd (Exec cmd l))"
proof (cases "Exec cmd l")
  case (Pair r l')
  show ?thesis
  proof (cases r)
    case (Some e)
    with Pair ok show ?thesis by (auto dest: Exec_Some)
  next
    case None
    have K: "keys_are_ids l" using ok by (simp add: store_ok_def)
    show ?thesis
    proof (cases cmd)
      case (Cmd_AddBook i name cnt)
      with Pair None have "AddBook i name cnt l = (None, l')" by simp
      from AddBook_None [OF this] ok Pair show ?thesis
        by (auto intro!: books_update_ok)
    next
      case (Cmd_AddCopies i cnt)
      with Pair None have "AddCopies i cnt l = (None, l')" by simp
      from AddCopies_None [OF this] ok Pair show ?thesis
        by (auto intro!: books_update_ok)
    next
      case (Cmd_RemoveCopies i cnt)
      with Pair None have "RemoveCopies i cnt l = (None, l')" by simp
      from RemoveCopies_None [OF this] ok Pair show ?thesis
        by (auto intro!: books_update_ok)
    next
      case (Cmd_CreateAccount i name)
      with Pair None have "CreateAccount i name l = (None, l')" by simp
      from CreateAccount_None [OF this] ok Pair show ?thesis
        by (auto intro!: accounts_update_ok)
    next
      case (Cmd_CheckoutBook a b)
      with Pair None have "CheckoutBook a b l = (None, l')" by simp
      from CheckoutBook_None [OF this] obtain account book where
        ab: "accounts l a = Some account" "books l b = Some book"
        and len: "length (CheckoutsByAccount l (Account_ID account)) < 4"
        and new: "\<lparr>BookID = Book_ID book, AccountID = Account_ID account\<rparr>
          \<notin> set (CheckoutsByAccount l (Account_ID account))"
        and l': "l' = l\<lparr>checkoutsByAccount := (checkoutsByAccount l)(Account_ID account \<mapsto>
                 CheckoutsByAccount l (Account_ID account)
                   @ [\<lparr>BookID = Book_ID book, AccountID = Account_ID account\<rparr>]),
               checkoutsByBook := (checkoutsByBook l)(Book_ID book \<mapsto>
                 CheckoutsByBook l (Book_ID book)
                   @ [\<lparr>BookID = Book_ID book, AccountID = Account_ID account\<rparr>])\<rparr>"
        by blast
      have ids: "Account_ID account = a" "Book_ID book = b"
        using K ab by (auto simp: keys_are_ids_def)
      show ?thesis
        using checkout_ok [OF ok ab] len new Pair unfolding l' ids by simp
    next
      case (Cmd_ReturnBook a b)
      with Pair None have "ReturnBook a b l = (None, l')" by simp
      from ReturnBook_None [OF this] ok Pair show ?thesis
        by (auto intro!: return_ok)
    qed (use Pair ok in auto)
  qed
qed

lemma reachable_store_ok: "reachable l \<Longrightarrow> store_ok l"
  by (induction rule: reachable.induct) (simp_all add: store_ok_New Exec_store_ok)

lemma reachable_run: "reachable l \<Longrightarrow> reachable (run cmds l)"
  unfolding run_def
  by (induction cmds arbitrary: l) (simp_all add: reachable_Exec)

subsection \<open>Replaying an export\<close>

lemma int_fits_sint: "int_fits (sint (w :: go_int))"
  using sint_ge [of w] sint_lt [of w] by (simp add: int_fits_def)

lemma UnmarshalJSON_MarshalJSON:
  assumes "MarshalJSON cmd = Inr bs" and "valid_utf8 (command_text cmd)"
  shows "UnmarshalJSON bs = Inr cmd"
  using assms
  by (cases cmd) (auto simp: json_defs int_fits_sint valid_utf8_def)

lemma Import_Encode:
  "Encode cmds = Inr out \<Longrightarrow> \<forall>cmd \<in> set cmds. valid_utf8 (command_text cmd)
     \<Longrightarrow> Import out l = Exec_all cmds l"
proof (induction cmds arbitrary: out l)
  case Nil
  then show ?case by simp
next
  case (Cons cmd cmds)
  from Cons.prems obtain bs out' where m: "MarshalJSON cmd = Inr bs"
    and e: "Encode cmds = Inr out'" and out: "out = bs # out'"
    by (auto split: sum.splits)
  have v: "valid_utf8 (command_text cmd)" "\<forall>cmd \<in> set cmds. valid_utf8 (command_text cmd)"
    using Cons.prems(2) by simp_all
  show ?case
    using Cons.IH [OF e v(2)] UnmarshalJSON_MarshalJSON [OF m v(1)]
    by (simp add: out split: prod.splits option.splits)
qed

lemma Encode_total:
  "\<forall>cmd \<in> set cmds. cmd \<noteq> Cmd_Other \<Longrightarrow> \<exists>out. Encode cmds = Inr out"
proof (induction cmds)
  case Nil
  then show ?case by simp
next
  case (Cons cmd cmds)
  then obtain out where "Encode cmds = Inr out" by auto
  moreover have "\<exists>bs. MarshalJSON cmd = Inr bs"
    using Cons.prems by (cases cmd) (simp_all add: MarshalJSON_def)
  ultimately show ?case by auto
qed

lemma Exec_all_append:
  "Exec_all (xs @ ys) l =
     (case Exec_all xs l of (Some err, l') \<Rightarrow> (Some err, l') | (None, l') \<Rightarrow> Exec_all ys l')"
  by (induction xs arbitrary: l) (auto split: prod.splits option.splits)

lemma replay_books:
  assumes "distinct ks"
    and "\<forall>k \<in> set ks. \<exists>book. m k = Some book \<and> Book_ID book = k \<and> 0 \<le> sint (Book_Count book)"
    and "\<forall>k \<in> set ks. books l0 k = None"
  shows "Exec_all (List.map_filter (\<lambda>k. map_option
        (\<lambda>book. Cmd_AddBook (Book_ID book) (Book_Name book) (Book_Count book)) (m k)) ks) l0
     = (None, l0\<lparr>books := books l0 ++ (m |` set ks)\<rparr>)"
  using assms
proof (induction ks arbitrary: l0)
  case Nil
  then show ?case by (simp add: List.map_filter_def)
next
  case (Cons k ks)
  from Cons.prems obtain book where b: "m k = Some book" "Book_ID book = k"
    "0 \<le> sint (Book_Count book)"
    by auto
  let ?l1 = "l0\<lparr>books := (books l0)(k \<mapsto> book)\<rparr>"
  have rec: "\<lparr>Book_ID = k, Book_Name = Book_Name book, Book_Count = Book_Count book\<rparr> = book"
    using b(2) by (cases book) simp
  have step: "AddBook k (Book_Name book) (Book_Count book) l0 = (None, ?l1)"
    using Cons.prems(3) b(3) by (simp add: AddBook_def rec not_less)
  have ih: "Exec_all (List.map_filter (\<lambda>k. map_option
        (\<lambda>book. Cmd_AddBook (Book_ID book) (Book_Name book) (Book_Count book)) (m k)) ks) ?l1
     = (None, ?l1\<lparr>books := books ?l1 ++ (m |` set ks)\<rparr>)"
    using Cons.prems by (intro Cons.IH) auto
  have maps: "(books l0)(k \<mapsto> book) ++ (m |` set ks) = books l0 ++ (m |` set (k # ks))"
    using b(1) by (auto simp: map_add_def restrict_map_def fun_eq_iff split: option.splits)
  show ?case
    using b step ih maps by (simp add: List.map_filter_def)
qed

lemma replay_accounts:
  assumes "distinct ks"
    and "\<forall>k \<in> set ks. \<exists>account. m k = Some account \<and> Account_ID account = k"
    and "\<forall>k \<in> set ks. accounts l0 k = None"
  shows "Exec_all (List.map_filter (\<lambda>k. map_option
        (\<lambda>account. Cmd_CreateAccount (Account_ID account) (Account_Name account)) (m k)) ks) l0
     = (None, l0\<lparr>accounts := accounts l0 ++ (m |` set ks)\<rparr>)"
  using assms
proof (induction ks arbitrary: l0)
  case Nil
  then show ?case by (simp add: List.map_filter_def)
next
  case (Cons k ks)
  from Cons.prems obtain account where b: "m k = Some account" "Account_ID account = k"
    by auto
  let ?l1 = "l0\<lparr>accounts := (accounts l0)(k \<mapsto> account)\<rparr>"
  have rec: "\<lparr>Account_ID = k, Account_Name = Account_Name account\<rparr> = account"
    using b(2) by (cases account) simp
  have step: "CreateAccount k (Account_Name account) l0 = (None, ?l1)"
    using Cons.prems(3) by (simp add: CreateAccount_def rec)
  have ih: "Exec_all (List.map_filter (\<lambda>k. map_option
        (\<lambda>account. Cmd_CreateAccount (Account_ID account) (Account_Name account)) (m k)) ks) ?l1
     = (None, ?l1\<lparr>accounts := accounts ?l1 ++ (m |` set ks)\<rparr>)"
    using Cons.prems by (intro Cons.IH) auto
  have maps: "(accounts l0)(k \<mapsto> account) ++ (m |` set ks) = accounts l0 ++ (m |` set (k # ks))"
    using b(1) by (auto simp: map_add_def restrict_map_def fun_eq_iff split: option.splits)
  show ?case
    using b step ih maps by (simp add: List.map_filter_def)
qed

lemma CheckoutBook_success:
  assumes a: "accounts l a = Some account" "Account_ID account = a"
    and b: "books l b = Some book" "Book_ID book = b"
    and len: "length (CheckoutsByAccount l a) < 4"
    and new: "\<lparr>BookID = b, AccountID = a\<rparr> \<notin> set (CheckoutsByAccount l a)"
  shows "\<exists>l'. CheckoutBook a b l = (None, l')
     \<and> CheckoutsByAccount l' = (CheckoutsByAccount l)(a := CheckoutsByAccount l a @ [\<lparr>BookID = b, AccountID = a\<rparr>])
     \<and> CheckoutsByBook l' = (CheckoutsByBook l)(b := CheckoutsByBook l b @ [\<lparr>BookID = b, AccountID = a\<rparr>])
     \<and> books l' = books l \<and> accounts l' = accounts l"
proof -
  let ?c = "\<lparr>BookID = b, AccountID = a\<rparr>"
  let ?l' = "l\<lparr>checkoutsByAccount := (checkoutsByAccount l)(a \<mapsto> CheckoutsByAccount l a @ [?c]),
               checkoutsByBook := (checkoutsByBook l)(b \<mapsto> CheckoutsByBook l b @ [?c])\<rparr>"
  have "CheckoutBook a b l = (None, ?l')"
    using assms
    by (simp add: CheckoutBook_def Let_def list_ex_matchCheckout CheckoutsByAccount_def
        CheckoutsByBook_def)
  moreover have "CheckoutsByAccount ?l' = (CheckoutsByAccount l)(a := CheckoutsByAccount l a @ [?c])"
    by (rule ext) (simp add: CheckoutsByAccount_def slice_at_upd)
  moreover have "CheckoutsByBook ?l' = (CheckoutsByBook l)(b := CheckoutsByBook l b @ [?c])"
    by (rule ext) (simp add: CheckoutsByBook_def slice_at_upd)
  ultimately show ?thesis by simp
qed

lemma replay_checkouts_of_account:
  assumes "accounts l0 a = Some account" "Account_ID account = a"
    and "\<forall>c \<in> set cs. AccountID c = a \<and> (\<exists>book. books l0 (BookID c) = Some book \<and> Book_ID book = BookID c)"
    and "distinct (CheckoutsByAccount l0 a @ cs)"
    and "length (CheckoutsByAccount l0 a @ cs) \<le> 4"
  shows "\<exists>l'. Exec_all (map (\<lambda>c. Cmd_CheckoutBook (AccountID c) (BookID c)) cs) l0 = (None, l')
     \<and> CheckoutsByAccount l' = (CheckoutsByAccount l0)(a := CheckoutsByAccount l0 a @ cs)
     \<and> (\<forall>b. CheckoutsByBook l' b = CheckoutsByBook l0 b @ filter (\<lambda>c. BookID c = b) cs)
     \<and> books l' = books l0 \<and> accounts l' = accounts l0"
  using assms
proof (induction cs arbitrary: l0)
  case Nil
  then show ?case by simp
next
  case (Cons c cs)
  from Cons.prems(3) obtain book where c: "AccountID c = a"
    and bk: "books l0 (BookID c) = Some book" "Book_ID book = BookID c"
    by auto
  have ceq: "\<lparr>BookID = BookID c, AccountID = a\<rparr> = c"
    using c by (cases c) simp
  have len: "length (CheckoutsByAccount l0 a) < 4"
    using Cons.prems(5) by simp
  have new: "\<lparr>BookID = BookID c, AccountID = a\<rparr> \<notin> set (CheckoutsByAccount l0 a)"
    using Cons.prems(4) by (simp add: ceq)
  from CheckoutBook_success [OF Cons.prems(1,2) bk len new] obtain l1 where
    s: "CheckoutBook a (BookID c) l0 = (None, l1)"
    and ca: "CheckoutsByAccount l1 = (CheckoutsByAccount l0)(a := CheckoutsByAccount l0 a @ [c])"
    and cb: "CheckoutsByBook l1 = (CheckoutsByBook l0)(BookID c := CheckoutsByBook l0 (BookID c) @ [c])"
    and same: "books l1 = books l0" "accounts l1 = accounts l0"
    unfolding ceq by blast
  have "\<exists>l'. Exec_all (map (\<lambda>c. Cmd_CheckoutBook (AccountID c) (BookID c)) cs) l1 = (None, l')
     \<and> CheckoutsByAccount l' = (CheckoutsByAccount l1)(a := CheckoutsByAccount l1 a @ cs)
     \<and> (\<forall>b. CheckoutsByBook l' b = CheckoutsByBook l1 b @ filter (\<lambda>c. BookID c = b) cs)
     \<and> books l' = books l1 \<and> accounts l' = accounts l1"
  proof (rule Cons.IH)
    show "accounts l1 a = Some account" "Account_ID account = a"
      using Cons.prems(1,2) same by simp_all
    show "\<forall>c \<in> set cs. AccountID c = a
        \<and> (\<exists>book. books l1 (BookID c) = Some book \<and> Book_ID book = BookID c)"
      using Cons.prems(3) same by simp
    show "distinct (CheckoutsByAccount l1 a @ cs)"
      using Cons.prems(4) by (simp add: ca)
    show "length (CheckoutsByAccount l1 a @ cs) \<le> 4"
      using Cons.prems(5) by (simp add: ca)
  qed
  then obtain l' where
    e: "Exec_all (map (\<lambda>c. Cmd_CheckoutBook (AccountID c) (BookID c)) cs) l1 = (None, l')"
    and ca': "CheckoutsByAccount l' = (CheckoutsByAccount l1)(a := CheckoutsByAccount l1 a @ cs)"
    and cb': "\<forall>b. CheckoutsByBook l' b = CheckoutsByBook l1 b @ filter (\<lambda>c. BookID c = b) cs"
    and same': "books l' = books l1" "accounts l' = accounts l1"
    by blast
  have "Exec_all (map (\<lambda>c. Cmd_CheckoutBook (AccountID c) (BookID c)) (c # cs)) l0 = (None, l')"
    using s e c by simp
  moreover have "CheckoutsByAccount l' = (CheckoutsByAccount l0)(a := CheckoutsByAccount l0 a @ c # cs)"
    by (simp add: ca' ca)
  moreover have "\<forall>b. CheckoutsByBook l' b = CheckoutsByBook l0 b @ filter (\<lambda>c. BookID c = b) (c # cs)"
    by (simp add: cb' cb)
  ultimately show ?case
    using same same' by auto
qed

lemma replay_checkouts:
  assumes "distinct ks"
    and "\<forall>k \<in> set ks. CheckoutsByAccount l0 k = []"
    and "\<forall>k \<in> set ks. length (f k) \<le> 4 \<and> distinct (f k)
           \<and> (f k \<noteq> [] \<longrightarrow> (\<exists>account. accounts l0 k = Some account \<and> Account_ID account = k))
           \<and> (\<forall>c \<in> set (f k). AccountID c = k
                 \<and> (\<exists>book. books l0 (BookID c) = Some book \<and> Book_ID book = BookID c))"
  shows "\<exists>l'. Exec_all (concat (map (\<lambda>k. map (\<lambda>c. Cmd_CheckoutBook (AccountID c) (BookID c)) (f k)) ks)) l0
        = (None, l')
     \<and> (\<forall>k. CheckoutsByAccount l' k = (if k \<in> set ks then f k else CheckoutsByAccount l0 k))
     \<and> (\<forall>b. CheckoutsByBook l' b = CheckoutsByBook l0 b @ filter (\<lambda>c. BookID c = b) (concat (map f ks)))
     \<and> books l' = books l0 \<and> accounts l' = accounts l0"
  using assms
proof (induction ks arbitrary: l0)
  case Nil
  then show ?case by simp
next
  case (Cons k ks)
  have fk: "length (f k) \<le> 4" "distinct (f k)"
    "\<forall>c \<in> set (f k). AccountID c = k
        \<and> (\<exists>book. books l0 (BookID c) = Some book \<and> Book_ID book = BookID c)"
    using Cons.prems(3) by auto
  have empty: "CheckoutsByAccount l0 k = []"
    using Cons.prems(2) by simp
  have "\<exists>l1. Exec_all (map (\<lambda>c. Cmd_CheckoutBook (AccountID c) (BookID c)) (f k)) l0 = (None, l1)
     \<and> CheckoutsByAccount l1 = (CheckoutsByAccount l0)(k := f k)
     \<and> (\<forall>b. CheckoutsByBook l1 b = CheckoutsByBook l0 b @ filter (\<lambda>c. BookID c = b) (f k))
     \<and> books l1 = books l0 \<and> accounts l1 = accounts l0"
  proof (cases "f k = []")
    case True
    then show ?thesis using empty by (auto simp: fun_eq_iff)
  next
    case False
    with Cons.prems(3) obtain account where
      a: "accounts l0 k = Some account" "Account_ID account = k"
      by auto
    from replay_checkouts_of_account [OF a, of "f k"] fk empty show ?thesis
      by simp
  qed
  then obtain l1 where
    e1: "Exec_all (map (\<lambda>c. Cmd_CheckoutBook (AccountID c) (BookID c)) (f k)) l0 = (None, l1)"
    and ca: "CheckoutsByAccount l1 = (CheckoutsByAccount l0)(k := f k)"
    and cb: "\<forall>b. CheckoutsByBook l1 b = CheckoutsByBook l0 b @ filter (\<lambda>c. BookID c = b) (f k)"
    and same: "books l1 = books l0" "accounts l1 = accounts l0"
    by blast
  have "\<exists>l'. Exec_all (concat (map (\<lambda>k. map (\<lambda>c. Cmd_CheckoutBook (AccountID c) (BookID c)) (f k)) ks)) l1
        = (None, l')
     \<and> (\<forall>k. CheckoutsByAccount l' k = (if k \<in> set ks then f k else CheckoutsByAccount l1 k))
     \<and> (\<forall>b. CheckoutsByBook l' b = CheckoutsByBook l1 b @ filter (\<lambda>c. BookID c = b) (concat (map f ks)))
     \<and> books l' = books l1 \<and> accounts l' = accounts l1"
  proof (rule Cons.IH)
    show "distinct ks" using Cons.prems(1) by simp
    show "\<forall>k \<in> set ks. CheckoutsByAccount l1 k = []"
      using Cons.prems(1,2) by (auto simp: ca)
    show "\<forall>k \<in> set ks. length (f k) \<le> 4 \<and> distinct (f k)
           \<and> (f k \<noteq> [] \<longrightarrow> (\<exists>account. accounts l1 k = Some account \<and> Account_ID account = k))
           \<and> (\<forall>c \<in> set (f k). AccountID c = k
                 \<and> (\<exists>book. books l1 (BookID c) = Some book \<and> Book_ID book = BookID c))"
      using Cons.prems(3) by (simp add: same)
  qed
  then obtain l' where
    e: "Exec_all (concat (map (\<lambda>k. map (\<lambda>c. Cmd_CheckoutBook (AccountID c) (BookID c)) (f k)) ks)) l1
        = (None, l')"
    and ca': "\<forall>k. CheckoutsByAccount l' k = (if k \<in> set ks then f k else CheckoutsByAccount l1 k)"
    and cb': "\<forall>b. CheckoutsByBook l' b = CheckoutsByBook l1 b @ filter (\<lambda>c. BookID c = b) (concat (map f ks))"
    and same': "books l' = books l1" "accounts l' = accounts l1"
    by blast
  have "Exec_all (concat (map (\<lambda>k. map (\<lambda>c. Cmd_CheckoutBook (AccountID c) (BookID c)) (f k)) (k # ks))) l0
        = (None, l')"
    using e1 e by (simp add: Exec_all_append)
  moreover have "\<forall>j. CheckoutsByAccount l' j = (if j \<in> set (k # ks) then f j else CheckoutsByAccount l0 j)"
    using Cons.prems(1) by (auto simp: ca' ca)
  moreover have "\<forall>b. CheckoutsByBook l' b
      = CheckoutsByBook l0 b @ filter (\<lambda>c. BookID c = b) (concat (map f (k # ks)))"
    by (simp add: cb' cb)
  ultimately show ?case
    using same same' by auto
qed

lemma restrict_map_dom: "m |` dom m = m"
proof (rule ext)
  fix x show "(m |` dom m) x = m x"
    by (cases "m x") (simp_all add: restrict_map_def dom_def)
qed

lemma exported_commands_valid:
  assumes "names_valid_utf8 l"
  shows "\<forall>cmd \<in> set (exported_commands bks aks cks l). valid_utf8 (command_text cmd)"
  using assms
  by (auto simp: exported_commands_def List.map_filter_def names_valid_utf8_def valid_utf8_def
      coerce_utf8.simps(1))

lemma exported_commands_known:
  "\<forall>cmd \<in> set (exported_commands bks aks cks l). cmd \<noteq> Cmd_Other"
  by (auto simp: exported_commands_def List.map_filter_def)

lemma reachable_iteration_orders:
  assumes "reachable l"
  shows "\<exists>bks aks cks. iteration_order (books l) bks \<and> iteration_order (accounts l) aks
     \<and> iteration_order (checkoutsByAccount l) cks"
proof -
  have "finite_maps l"
    using reachable_store_ok [OF assms] by (simp add: store_ok_def)
  then show ?thesis
    unfolding finite_maps_def iteration_order_def
    by (metis finite_distinct_list)
qed

section \<open>Failure of an operation\<close>

text \<open>
  C7. \<^verbatim>\<open>AddBook\<close> with an id that is already in the catalog fails with "book already
  exists" whatever the name and the count are (the count is tested only afterwards, so
  a negative count reports the same error), and the store is unchanged.
\<close>

theorem AddBook_existing_id_fails:
  "books l i = Some b \<Longrightarrow> AddBook i name cnt l = (Some ErrBookAlreadyExists, l)"
  by (simp add: AddBook_def)

theorem AddBook_existing_id_fails_witness:
  "books (snd (AddBook 1 ''Dune'' 2 New)) 1
      = Some \<lparr>Book_ID = 1, Book_Name = ''Dune'', Book_Count = 2\<rparr>
   \<and> AddBook 1 ''Emma'' (- 5) (snd (AddBook 1 ''Dune'' 2 New))
      = (Some ErrBookAlreadyExists, snd (AddBook 1 ''Dune'' 2 New))"
proof -
  have b: "books (snd (AddBook 1 ''Dune'' 2 New)) 1
      = Some \<lparr>Book_ID = 1, Book_Name = ''Dune'', Book_Count = 2\<rparr>"
    by (simp add: AddBook_def New_def)
  show ?thesis
    using b AddBook_existing_id_fails [OF b, of "''Emma''" "- 5"] by simp
qed

text \<open>
  C10. Each of the six mutating operations that returns an error returns the store it
  was given: books, accounts and both checkout indices are as before the call.
\<close>

theorem failed_operation_keeps_store:
  "(fst (AddBook i name cnt l) \<noteq> None \<longrightarrow> snd (AddBook i name cnt l) = l)
   \<and> (fst (AddCopies i cnt l) \<noteq> None \<longrightarrow> snd (AddCopies i cnt l) = l)
   \<and> (fst (RemoveCopies i cnt l) \<noteq> None \<longrightarrow> snd (RemoveCopies i cnt l) = l)
   \<and> (fst (CreateAccount i name l) \<noteq> None \<longrightarrow> snd (CreateAccount i name l) = l)
   \<and> (fst (CheckoutBook a b l) \<noteq> None \<longrightarrow> snd (CheckoutBook a b l) = l)
   \<and> (fst (ReturnBook a b l) \<noteq> None \<longrightarrow> snd (ReturnBook a b l) = l)"
proof (intro conjI impI)
  show "snd (AddBook i name cnt l) = l" if "fst (AddBook i name cnt l) \<noteq> None"
    using that by (auto simp: AddBook_def split: option.splits if_splits)
  show "snd (AddCopies i cnt l) = l" if "fst (AddCopies i cnt l) \<noteq> None"
    using that by (auto simp: AddCopies_def split: option.splits if_splits)
  show "snd (RemoveCopies i cnt l) = l" if "fst (RemoveCopies i cnt l) \<noteq> None"
    using that by (auto simp: RemoveCopies_def Let_def split: option.splits if_splits)
  show "snd (CreateAccount i name l) = l" if "fst (CreateAccount i name l) \<noteq> None"
    using that by (auto simp: CreateAccount_def split: option.splits if_splits)
  show "snd (CheckoutBook a b l) = l" if "fst (CheckoutBook a b l) \<noteq> None"
    using that by (auto simp: CheckoutBook_def Let_def split: option.splits if_splits)
  show "snd (ReturnBook a b l) = l" if "fst (ReturnBook a b l) \<noteq> None"
    using that by (auto simp: ReturnBook_def Let_def split: option.splits if_splits)
qed

theorem failed_operation_keeps_store_witness:
  "fst (AddBook 1 ''Emma'' 1 dune_scenario) = Some ErrBookAlreadyExists
   \<and> snd (AddBook 1 ''Emma'' 1 dune_scenario) = dune_scenario
   \<and> fst (AddCopies 1 (- 1) dune_scenario) = Some ErrAddNegativeCopies
   \<and> snd (AddCopies 1 (- 1) dune_scenario) = dune_scenario
   \<and> fst (RemoveCopies 1 2 dune_scenario) = Some (ErrRemoveMoreThanAvailable ''Dune'' 1 1)
   \<and> snd (RemoveCopies 1 2 dune_scenario) = dune_scenario
   \<and> fst (CreateAccount 10 ''Bob'' dune_scenario) = Some ErrAccountAlreadyExists
   \<and> snd (CreateAccount 10 ''Bob'' dune_scenario) = dune_scenario
   \<and> fst (CheckoutBook 10 1 dune_scenario) = Some (ErrDuplicateCheckout ''Ada'' 10 ''Dune'' 1)
   \<and> snd (CheckoutBook 10 1 dune_scenario) = dune_scenario
   \<and> fst (ReturnBook 10 2 dune_scenario) = Some ErrBookNotExist
   \<and> snd (ReturnBook 10 2 dune_scenario) = dune_scenario"
proof -
  have e: "fst (AddBook 1 ''Emma'' 1 dune_scenario) = Some ErrBookAlreadyExists"
    "fst (AddCopies 1 (- 1) dune_scenario) = Some ErrAddNegativeCopies"
    "fst (RemoveCopies 1 2 dune_scenario) = Some (ErrRemoveMoreThanAvailable ''Dune'' 1 1)"
    "fst (CreateAccount 10 ''Bob'' dune_scenario) = Some ErrAccountAlreadyExists"
    "fst (CheckoutBook 10 1 dune_scenario) = Some (ErrDuplicateCheckout ''Ada'' 10 ''Dune'' 1)"
    "fst (ReturnBook 10 2 dune_scenario) = Some ErrBookNotExist"
    by (simp_all add: dune_scenario_eq AddBook_def AddCopies_def RemoveCopies_def
        CreateAccount_def CheckoutBook_def ReturnBook_def slice_at_def matchCheckout_def Let_def)
  show ?thesis
    using e failed_operation_keeps_store [of 1 "''Emma''" 1 dune_scenario 10 1]
      failed_operation_keeps_store [of 1 "''Bob''" "- 1" dune_scenario 10 2]
      failed_operation_keeps_store [of 1 "''Bob''" 2 dune_scenario 10 2]
      failed_operation_keeps_store [of 10 "''Bob''" 2 dune_scenario 10 2]
    by simp
qed

section \<open>Removing copies\<close>

text \<open>
  C3. For a book in the catalog, \<^verbatim>\<open>RemoveCopies\<close> fails with "cannot remove negative
  copies" when the count is negative, else with "cannot remove more copies than exist"
  when the count exceeds \<^verbatim>\<open>Book.Count\<close>, else with the availability error when the
  count exceeds \<^verbatim>\<open>Book.Count\<close> minus the number of checkouts of the book, and else
  succeeds and lowers \<^verbatim>\<open>Book.Count\<close> by the count, without wrap-around; a failure
  leaves the store as it was. (A Go slice has fewer than \<open>2 ^ 63\<close> elements.) The
  witness is the scenario of the specification: with two copies and one checkout,
  removing one copy succeeds and removing one more fails, no copy being available.
\<close>

theorem RemoveCopies_outcome:
  assumes "books l i = Some book"
    and "length (CheckoutsByBook l (Book_ID book)) < 2 ^ 63"
  shows "RemoveCopies i cnt l =
     (if sint cnt < 0 then (Some ErrRemoveNegativeCopies, l)
      else if sint (Book_Count book) < sint cnt then (Some ErrRemoveMoreThanExist, l)
      else if sint (Book_Count book) - int (length (CheckoutsByBook l (Book_ID book))) < sint cnt
      then (Some (ErrRemoveMoreThanAvailable (Book_Name book) (Book_ID book)
              (Book_Count book - of_nat (length (CheckoutsByBook l (Book_ID book))))), l)
      else (None, l\<lparr>books := (books l)(i \<mapsto> book\<lparr>Book_Count := Book_Count book - cnt\<rparr>)\<rparr>))
    \<and> (0 \<le> sint cnt \<and> sint cnt \<le> sint (Book_Count book)
        \<longrightarrow> sint (Book_Count book - cnt) = sint (Book_Count book) - sint cnt)"
proof -
  let ?n = "length (CheckoutsByBook l (Book_ID book))"
  have av: "sint (Book_Count book - of_nat ?n) = sint (Book_Count book) - int ?n"
    if "0 \<le> sint cnt" "sint cnt \<le> sint (Book_Count book)"
    using that assms(2) by (intro sint_minus_length) simp_all
  show ?thesis
    using assms(1) av
    by (simp add: RemoveCopies_def CheckoutsByBook_def Let_def sint_minus_nonneg not_less)
qed

theorem RemoveCopies_outcome_witness:
  "fst (AddBook 1 ''Dune'' 2 New) = None
   \<and> fst (CreateAccount 10 ''Ada'' (snd (AddBook 1 ''Dune'' 2 New))) = None
   \<and> fst (CheckoutBook 10 1 (snd (CreateAccount 10 ''Ada'' (snd (AddBook 1 ''Dune'' 2 New))))) = None
   \<and> books dune_scenario 1 = Some \<lparr>Book_ID = 1, Book_Name = ''Dune'', Book_Count = 2\<rparr>
   \<and> length (CheckoutsByBook dune_scenario 1) = 1
   \<and> fst (RemoveCopies 1 1 dune_scenario) = None
   \<and> books (snd (RemoveCopies 1 1 dune_scenario)) 1
        = Some \<lparr>Book_ID = 1, Book_Name = ''Dune'', Book_Count = 1\<rparr>
   \<and> RemoveCopies 1 1 (snd (RemoveCopies 1 1 dune_scenario))
        = (Some (ErrRemoveMoreThanAvailable ''Dune'' 1 0), snd (RemoveCopies 1 1 dune_scenario))"
proof -
  let ?book = "\<lparr>Book_ID = 1, Book_Name = ''Dune'', Book_Count = 2\<rparr>"
  let ?book' = "\<lparr>Book_ID = 1, Book_Name = ''Dune'', Book_Count = 1\<rparr>"
  have steps: "fst (AddBook 1 ''Dune'' 2 New) = None"
    "fst (CreateAccount 10 ''Ada'' (snd (AddBook 1 ''Dune'' 2 New))) = None"
    "fst (CheckoutBook 10 1 (snd (CreateAccount 10 ''Ada'' (snd (AddBook 1 ''Dune'' 2 New))))) = None"
    by (simp_all add: AddBook_def CreateAccount_def CheckoutBook_def New_def slice_at_def Let_def
        matchCheckout_def)
  have b: "books dune_scenario 1 = Some ?book"
    by (simp add: dune_scenario_eq)
  have n: "length (CheckoutsByBook dune_scenario 1) = 1"
    by (simp add: dune_scenario_eq CheckoutsByBook_def slice_at_def)
  have n': "length (CheckoutsByBook dune_scenario (Book_ID ?book)) < 2 ^ 63"
    using n by simp
  have first: "RemoveCopies 1 1 dune_scenario
      = (None, dune_scenario\<lparr>books := (books dune_scenario)(1 \<mapsto> ?book')\<rparr>)"
    using RemoveCopies_outcome [OF b n', of 1] n by simp
  let ?l = "dune_scenario\<lparr>books := (books dune_scenario)(1 \<mapsto> ?book')\<rparr>"
  have b2: "books ?l 1 = Some ?book'" by simp
  have m: "length (CheckoutsByBook ?l 1) = 1"
    by (simp add: dune_scenario_eq CheckoutsByBook_def slice_at_def)
  have m': "length (CheckoutsByBook ?l (Book_ID ?book')) < 2 ^ 63"
    using m by simp
  have second: "RemoveCopies 1 1 ?l = (Some (ErrRemoveMoreThanAvailable ''Dune'' 1 0), ?l)"
    using RemoveCopies_outcome [OF b2 m', of 1] m by simp
  show ?thesis
    using steps b n first second by simp
qed

section \<open>Checking out\<close>

text \<open>
  C1. The claim is that after every successful operation no book has more checkouts
  than copies. \<^verbatim>\<open>CheckoutBook\<close> never reads \<^verbatim>\<open>Book.Count\<close>: a book added with no
  copies is checked out, and the reachable store then holds one checkout of a book
  whose count is 0.
\<close>

theorem checkout_beyond_copies:
  "reachable no_copies
   \<and> fst (Exec (Cmd_AddBook 1 ''Dune'' 0) New) = None
   \<and> fst (Exec (Cmd_CreateAccount 10 ''Ada'') (run [Cmd_AddBook 1 ''Dune'' 0] New)) = None
   \<and> fst (Exec (Cmd_CheckoutBook 10 1)
        (run [Cmd_AddBook 1 ''Dune'' 0, Cmd_CreateAccount 10 ''Ada''] New)) = None
   \<and> map_option (\<lambda>book. sint (Book_Count book)) (books no_copies 1) = Some 0
   \<and> CheckoutsByBook no_copies 1 = [\<lparr>BookID = 1, AccountID = 10\<rparr>]
   \<and> CheckoutsByAccount no_copies 10 = [\<lparr>BookID = 1, AccountID = 10\<rparr>]"
proof -
  have "reachable no_copies"
    unfolding no_copies_def by (rule reachable_run) (rule reachable_New)
  moreover have "fst (Exec (Cmd_AddBook 1 ''Dune'' 0) New) = None"
    "fst (Exec (Cmd_CreateAccount 10 ''Ada'') (run [Cmd_AddBook 1 ''Dune'' 0] New)) = None"
    "fst (Exec (Cmd_CheckoutBook 10 1)
        (run [Cmd_AddBook 1 ''Dune'' 0, Cmd_CreateAccount 10 ''Ada''] New)) = None"
    by (simp_all add: eval_defs)
  ultimately show ?thesis
    by (simp add: no_copies_eq CheckoutsByBook_def CheckoutsByAccount_def slice_at_def)
qed

text \<open>
  \<^verbatim>\<open>RemoveCopies\<close>, the other operation the bound depends on, does keep it: after a
  successful call the book has at least as many copies as checkouts.
\<close>

lemma RemoveCopies_keeps_availability:
  assumes b: "books l i = Some book"
    and n: "length (CheckoutsByBook l (Book_ID book)) < 2 ^ 63"
    and r: "RemoveCopies i cnt l = (None, l')"
  shows "books l' i = Some (book\<lparr>Book_Count := Book_Count book - cnt\<rparr>)
     \<and> CheckoutsByBook l' = CheckoutsByBook l
     \<and> int (length (CheckoutsByBook l' (Book_ID book))) \<le> sint (Book_Count book - cnt)"
proof -
  let ?n = "length (CheckoutsByBook l (Book_ID book))"
  from r b have c: "0 \<le> sint cnt" "sint cnt \<le> sint (Book_Count book)"
    and a: "sint cnt \<le> sint (Book_Count book - of_nat ?n)"
    and l': "l' = l\<lparr>books := (books l)(i \<mapsto> book\<lparr>Book_Count := Book_Count book - cnt\<rparr>)\<rparr>"
    by (auto simp: RemoveCopies_def Let_def CheckoutsByBook_def not_less split: if_splits)
  have "sint (Book_Count book - of_nat ?n) = sint (Book_Count book) - int ?n"
    using c n by (intro sint_minus_length) simp_all
  moreover have "sint (Book_Count book - cnt) = sint (Book_Count book) - sint cnt"
    using c by (rule sint_minus_nonneg)
  moreover have "CheckoutsByBook l' = CheckoutsByBook l"
    by (rule ext) (simp add: l' CheckoutsByBook_def)
  ultimately show ?thesis
    using a by (simp add: l')
qed

text \<open>
  C4. For an account with four checkouts (the code tests for four or more) and a
  book in the catalog, \<^verbatim>\<open>CheckoutBook\<close> fails with the limit error and returns the
  store unchanged, so neither index gains a checkout; and in every reachable store
  every account has at most four checkouts.
\<close>

theorem checkout_limit:
  "(accounts l a = Some account \<and> books l b = Some book
      \<and> 4 \<le> length (CheckoutsByAccount l (Account_ID account))
     \<longrightarrow> CheckoutBook a b l
           = (Some (ErrCheckoutLimit (Account_Name account) (Account_ID account)), l))
   \<and> (reachable l \<longrightarrow> length (CheckoutsByAccount l k) \<le> 4)"
proof (intro conjI impI)
  assume "accounts l a = Some account \<and> books l b = Some book
      \<and> 4 \<le> length (CheckoutsByAccount l (Account_ID account))"
  then show "CheckoutBook a b l
      = (Some (ErrCheckoutLimit (Account_Name account) (Account_ID account)), l)"
    by (simp add: CheckoutBook_def CheckoutsByAccount_def)
next
  assume "reachable l"
  then have "account_index_ok l"
    using reachable_store_ok by (simp add: store_ok_def)
  then show "length (CheckoutsByAccount l k) \<le> 4"
    by (simp add: account_index_ok_def)
qed

theorem checkout_limit_witness:
  "accounts four_checkouts 10 = Some \<lparr>Account_ID = 10, Account_Name = ''Ada''\<rparr>
   \<and> books four_checkouts 5 = Some \<lparr>Book_ID = 5, Book_Name = ''Beloved'', Book_Count = 2\<rparr>
   \<and> length (CheckoutsByAccount four_checkouts 10) = 4
   \<and> reachable four_checkouts
   \<and> CheckoutBook 10 5 four_checkouts = (Some (ErrCheckoutLimit ''Ada'' 10), four_checkouts)"
proof -
  have r: "reachable four_checkouts"
    unfolding four_checkouts_def by (rule reachable_run) (rule reachable_New)
  have h: "accounts four_checkouts 10 = Some \<lparr>Account_ID = 10, Account_Name = ''Ada''\<rparr>"
    "books four_checkouts 5 = Some \<lparr>Book_ID = 5, Book_Name = ''Beloved'', Book_Count = 2\<rparr>"
    "length (CheckoutsByAccount four_checkouts 10) = 4"
    by (simp_all add: four_checkouts_eq CheckoutsByAccount_def slice_at_def)
  show ?thesis
    using r h checkout_limit [of four_checkouts 10 "\<lparr>Account_ID = 10, Account_Name = ''Ada''\<rparr>" 5
        "\<lparr>Book_ID = 5, Book_Name = ''Beloved'', Book_Count = 2\<rparr>" 10]
    by simp
qed

text \<open>
  The claim C5 as stated fails for an account that holds four checkouts: checking out
  one of its four books again reports the limit error, which is tested first, not the
  duplicate error.
\<close>

theorem duplicate_checkout_counterexample:
  "reachable four_checkouts
   \<and> accounts four_checkouts 10 = Some \<lparr>Account_ID = 10, Account_Name = ''Ada''\<rparr>
   \<and> books four_checkouts 1 = Some \<lparr>Book_ID = 1, Book_Name = ''Dune'', Book_Count = 2\<rparr>
   \<and> \<lparr>BookID = 1, AccountID = 10\<rparr> \<in> set (CheckoutsByAccount four_checkouts 10)
   \<and> CheckoutBook 10 1 four_checkouts = (Some (ErrCheckoutLimit ''Ada'' 10), four_checkouts)
   \<and> fst (CheckoutBook 10 1 four_checkouts) \<noteq> Some (ErrDuplicateCheckout ''Ada'' 10 ''Dune'' 1)"
proof -
  have r: "reachable four_checkouts"
    unfolding four_checkouts_def by (rule reachable_run) (rule reachable_New)
  then show ?thesis
    by (simp add: four_checkouts_eq CheckoutsByAccount_def slice_at_def CheckoutBook_def)
qed

text \<open>
  C5, amended. For an account and a book with a checkout of the book by the account,
  \<^verbatim>\<open>CheckoutBook\<close> for the same pair fails and returns the store unchanged: with the
  duplicate error when the account has fewer than four checkouts, with the limit error
  otherwise. In every reachable store the checkouts of an account are of different
  books.
\<close>

theorem duplicate_checkout:
  "(accounts l a = Some account \<and> books l b = Some book
      \<and> list_ex (matchCheckout account book) (CheckoutsByAccount l (Account_ID account))
     \<longrightarrow> CheckoutBook a b l
           = (Some (if 4 \<le> length (CheckoutsByAccount l (Account_ID account))
                    then ErrCheckoutLimit (Account_Name account) (Account_ID account)
                    else ErrDuplicateCheckout (Account_Name account) (Account_ID account)
                           (Book_Name book) (Book_ID book)), l))
   \<and> (reachable l \<longrightarrow> distinct (map BookID (CheckoutsByAccount l k)))"
proof (intro conjI impI)
  assume "accounts l a = Some account \<and> books l b = Some book
      \<and> list_ex (matchCheckout account book) (CheckoutsByAccount l (Account_ID account))"
  then show "CheckoutBook a b l
           = (Some (if 4 \<le> length (CheckoutsByAccount l (Account_ID account))
                    then ErrCheckoutLimit (Account_Name account) (Account_ID account)
                    else ErrDuplicateCheckout (Account_Name account) (Account_ID account)
                           (Book_Name book) (Book_ID book)), l)"
    by (simp add: CheckoutBook_def CheckoutsByAccount_def)
next
  assume "reachable l"
  then have A: "account_index_ok l"
    using reachable_store_ok by (simp add: store_ok_def)
  have "inj_on BookID (set (CheckoutsByAccount l k))"
  proof (rule inj_onI)
    fix c d assume "c \<in> set (CheckoutsByAccount l k)" "d \<in> set (CheckoutsByAccount l k)"
      "BookID c = BookID d"
    with A have "AccountID c = AccountID d" "BookID c = BookID d"
      by (auto simp: account_index_ok_def)
    then show "c = d" by simp
  qed
  moreover have "distinct (CheckoutsByAccount l k)"
    using A by (simp add: account_index_ok_def)
  ultimately show "distinct (map BookID (CheckoutsByAccount l k))"
    by (simp add: distinct_map)
qed

theorem duplicate_checkout_witness:
  "accounts dune_scenario 10 = Some \<lparr>Account_ID = 10, Account_Name = ''Ada''\<rparr>
   \<and> books dune_scenario 1 = Some \<lparr>Book_ID = 1, Book_Name = ''Dune'', Book_Count = 2\<rparr>
   \<and> list_ex (matchCheckout \<lparr>Account_ID = 10, Account_Name = ''Ada''\<rparr>
        \<lparr>Book_ID = 1, Book_Name = ''Dune'', Book_Count = 2\<rparr>) (CheckoutsByAccount dune_scenario 10)
   \<and> reachable four_checkouts
   \<and> CheckoutBook 10 1 dune_scenario
       = (Some (ErrDuplicateCheckout ''Ada'' 10 ''Dune'' 1), dune_scenario)
   \<and> distinct (map BookID (CheckoutsByAccount four_checkouts 10))"
proof -
  have r: "reachable four_checkouts"
    unfolding four_checkouts_def by (rule reachable_run) (rule reachable_New)
  have h: "accounts dune_scenario 10 = Some \<lparr>Account_ID = 10, Account_Name = ''Ada''\<rparr>"
    "books dune_scenario 1 = Some \<lparr>Book_ID = 1, Book_Name = ''Dune'', Book_Count = 2\<rparr>"
    "list_ex (matchCheckout \<lparr>Account_ID = 10, Account_Name = ''Ada''\<rparr>
        \<lparr>Book_ID = 1, Book_Name = ''Dune'', Book_Count = 2\<rparr>) (CheckoutsByAccount dune_scenario 10)"
    "length (CheckoutsByAccount dune_scenario 10) = 1"
    by (simp_all add: dune_scenario_eq CheckoutsByAccount_def slice_at_def matchCheckout_def)
  show ?thesis
    using r h
      duplicate_checkout [of dune_scenario 10 "\<lparr>Account_ID = 10, Account_Name = ''Ada''\<rparr>" 1
        "\<lparr>Book_ID = 1, Book_Name = ''Dune'', Book_Count = 2\<rparr>" 10]
      duplicate_checkout [of four_checkouts 10 "\<lparr>Account_ID = 10, Account_Name = ''Ada''\<rparr>" 1
        "\<lparr>Book_ID = 1, Book_Name = ''Dune'', Book_Count = 2\<rparr>" 10]
    by simp
qed

section \<open>Checking out and returning\<close>

text \<open>
  In any store, reachable or not: for an account and a book in the store, the book not
  checked out by the account in either index, \<^verbatim>\<open>CheckoutBook\<close> followed by
  \<^verbatim>\<open>ReturnBook\<close> restores what both accessors return for every id. When the account
  has fewer than four checkouts both calls succeed, and each map of the store is the old
  one except that the id of the account, or of the book, has an entry afterwards,
  holding the list that was read for it before (no operation deletes a key). Otherwise
  the checkout fails and the store is the same throughout.
\<close>

lemma checkout_then_return_maps:
  assumes a: "accounts l a = Some account" and b: "books l b = Some book"
    and na: "\<not> list_ex (matchCheckout account book) (CheckoutsByAccount l (Account_ID account))"
    and nb: "\<not> list_ex (matchCheckout account book) (CheckoutsByBook l (Book_ID book))"
  shows "CheckoutsByAccount (snd (ReturnBook a b (snd (CheckoutBook a b l)))) = CheckoutsByAccount l
    \<and> CheckoutsByBook (snd (ReturnBook a b (snd (CheckoutBook a b l)))) = CheckoutsByBook l
    \<and> books (snd (ReturnBook a b (snd (CheckoutBook a b l)))) = books l
    \<and> accounts (snd (ReturnBook a b (snd (CheckoutBook a b l)))) = accounts l
    \<and> ReturnBook a b (snd (ReturnBook a b (snd (CheckoutBook a b l))))
        = (Some ErrCheckoutNotExist, snd (ReturnBook a b (snd (CheckoutBook a b l))))
    \<and> (if length (CheckoutsByAccount l (Account_ID account)) < 4
        then fst (CheckoutBook a b l) = None
          \<and> fst (ReturnBook a b (snd (CheckoutBook a b l))) = None
          \<and> checkoutsByAccount (snd (ReturnBook a b (snd (CheckoutBook a b l))))
              = (checkoutsByAccount l)(Account_ID account \<mapsto> CheckoutsByAccount l (Account_ID account))
          \<and> checkoutsByBook (snd (ReturnBook a b (snd (CheckoutBook a b l))))
              = (checkoutsByBook l)(Book_ID book \<mapsto> CheckoutsByBook l (Book_ID book))
        else snd (ReturnBook a b (snd (CheckoutBook a b l))) = l)"
proof (cases "length (CheckoutsByAccount l (Account_ID account)) < 4")
  case False
  then have c: "CheckoutBook a b l
      = (Some (ErrCheckoutLimit (Account_Name account) (Account_ID account)), l)"
    using a b by (simp add: CheckoutBook_def CheckoutsByAccount_def)
  have r: "ReturnBook a b l = (Some ErrCheckoutNotExist, l)"
    using a b na by (simp add: ReturnBook_def CheckoutsByAccount_def)
  show ?thesis using False by (simp add: c r)
next
  case True
  let ?c = "\<lparr>BookID = Book_ID book, AccountID = Account_ID account\<rparr>"
  let ?l1 = "l\<lparr>checkoutsByAccount := (checkoutsByAccount l)(Account_ID account \<mapsto>
                 CheckoutsByAccount l (Account_ID account) @ [?c]),
               checkoutsByBook := (checkoutsByBook l)(Book_ID book \<mapsto>
                 CheckoutsByBook l (Book_ID book) @ [?c])\<rparr>"
  let ?l2 = "l\<lparr>checkoutsByAccount := (checkoutsByAccount l)(Account_ID account \<mapsto>
                 CheckoutsByAccount l (Account_ID account)),
               checkoutsByBook := (checkoutsByBook l)(Book_ID book \<mapsto>
                 CheckoutsByBook l (Book_ID book))\<rparr>"
  have m: "matchCheckout account book ?c"
    by (simp add: matchCheckout_def)
  have c: "CheckoutBook a b l = (None, ?l1)"
    using a b na True
    by (simp add: CheckoutBook_def CheckoutsByAccount_def CheckoutsByBook_def Let_def)
  have r: "ReturnBook a b ?l1 = (None, ?l2)"
    using a b na nb m
    by (simp add: ReturnBook_def slice_at_upd filter_no_match
        CheckoutsByAccount_def CheckoutsByBook_def)
  have r2: "ReturnBook a b ?l2 = (Some ErrCheckoutNotExist, ?l2)"
    using a b na
    by (simp add: ReturnBook_def slice_at_upd CheckoutsByAccount_def)
  have va: "CheckoutsByAccount ?l2 = CheckoutsByAccount l"
    by (rule ext) (simp add: CheckoutsByAccount_def slice_at_upd)
  have vb: "CheckoutsByBook ?l2 = CheckoutsByBook l"
    by (rule ext) (simp add: CheckoutsByBook_def slice_at_upd)
  show ?thesis
    using True by (simp add: c r r2 va vb)
qed

text \<open>
  C6. In every reachable store, for an account and a book in the store where the
  account has no checkout of the book, \<^verbatim>\<open>CheckoutBook\<close> followed by \<^verbatim>\<open>ReturnBook\<close>
  for the pair restores both indices: for every id, each index holds the same list of
  checkouts as before the checkout, in the same order. A second \<^verbatim>\<open>ReturnBook\<close> for
  the pair then fails with \<^verbatim>\<open>ErrCheckoutNotExist\<close>. Both calls succeed when the
  account has fewer than four checkouts.
\<close>

theorem checkout_then_return:
  assumes r: "reachable l"
    and a: "accounts l a = Some account" and b: "books l b = Some book"
    and n: "\<not> list_ex (matchCheckout account book) (CheckoutsByAccount l a)"
  shows "CheckoutsByAccount (snd (ReturnBook a b (snd (CheckoutBook a b l)))) = CheckoutsByAccount l
    \<and> CheckoutsByBook (snd (ReturnBook a b (snd (CheckoutBook a b l)))) = CheckoutsByBook l
    \<and> books (snd (ReturnBook a b (snd (CheckoutBook a b l)))) = books l
    \<and> accounts (snd (ReturnBook a b (snd (CheckoutBook a b l)))) = accounts l
    \<and> ReturnBook a b (snd (ReturnBook a b (snd (CheckoutBook a b l))))
        = (Some ErrCheckoutNotExist, snd (ReturnBook a b (snd (CheckoutBook a b l))))
    \<and> (length (CheckoutsByAccount l a) < 4
        \<longrightarrow> fst (CheckoutBook a b l) = None
          \<and> fst (ReturnBook a b (snd (CheckoutBook a b l))) = None)"
proof -
  have ok: "store_ok l" using r by (rule reachable_store_ok)
  then have K: "keys_are_ids l" and B: "book_index_ok l"
    by (simp_all add: store_ok_def)
  have ids: "Account_ID account = a" "Book_ID book = b"
    using K a b by (auto simp: keys_are_ids_def)
  have na: "\<not> list_ex (matchCheckout account book) (CheckoutsByAccount l (Account_ID account))"
    using n by (simp add: ids)
  have nb: "\<not> list_ex (matchCheckout account book) (CheckoutsByBook l (Book_ID book))"
  proof
    assume "list_ex (matchCheckout account book) (CheckoutsByBook l (Book_ID book))"
    then have c: "\<lparr>BookID = b, AccountID = a\<rparr> \<in> set (CheckoutsByBook l b)"
      by (simp add: list_ex_matchCheckout ids)
    with B have "\<lparr>BookID = b, AccountID = a\<rparr>
        \<in> set (CheckoutsByAccount l (AccountID \<lparr>BookID = b, AccountID = a\<rparr>))"
      unfolding book_index_ok_def by blast
    then show False
      using n by (simp add: list_ex_matchCheckout ids)
  qed
  show ?thesis
    using checkout_then_return_maps [OF a b na nb] by (simp add: ids split: if_splits)
qed

theorem checkout_then_return_witness:
  "reachable no_checkouts
   \<and> accounts no_checkouts 10 = Some \<lparr>Account_ID = 10, Account_Name = ''Ada''\<rparr>
   \<and> books no_checkouts 1 = Some \<lparr>Book_ID = 1, Book_Name = ''Dune'', Book_Count = 2\<rparr>
   \<and> CheckoutsByAccount no_checkouts 10 = []
   \<and> length (CheckoutsByAccount no_checkouts 10) < 4
   \<and> fst (CheckoutBook 10 1 no_checkouts) = None
   \<and> CheckoutsByAccount (snd (CheckoutBook 10 1 no_checkouts)) 10 = [\<lparr>BookID = 1, AccountID = 10\<rparr>]
   \<and> fst (ReturnBook 10 1 (snd (CheckoutBook 10 1 no_checkouts))) = None
   \<and> CheckoutsByAccount (snd (ReturnBook 10 1 (snd (CheckoutBook 10 1 no_checkouts))))
       = CheckoutsByAccount no_checkouts
   \<and> CheckoutsByBook (snd (ReturnBook 10 1 (snd (CheckoutBook 10 1 no_checkouts))))
       = CheckoutsByBook no_checkouts
   \<and> fst (ReturnBook 10 1 (snd (ReturnBook 10 1 (snd (CheckoutBook 10 1 no_checkouts)))))
       = Some ErrCheckoutNotExist"
proof -
  let ?account = "\<lparr>Account_ID = 10, Account_Name = ''Ada''\<rparr>"
  let ?book = "\<lparr>Book_ID = 1, Book_Name = ''Dune'', Book_Count = 2\<rparr>"
  have r: "reachable no_checkouts"
    unfolding no_checkouts_def by (rule reachable_run) (rule reachable_New)
  have a: "accounts no_checkouts 10 = Some ?account"
    and b: "books no_checkouts 1 = Some ?book"
    and e: "CheckoutsByAccount no_checkouts 10 = []"
    by (simp_all add: no_checkouts_eq CheckoutsByAccount_def slice_at_def)
  have n: "\<not> list_ex (matchCheckout ?account ?book) (CheckoutsByAccount no_checkouts 10)"
    using e by simp
  have c: "CheckoutsByAccount (snd (CheckoutBook 10 1 no_checkouts)) 10
      = [\<lparr>BookID = 1, AccountID = 10\<rparr>]"
    by (simp add: no_checkouts_eq CheckoutsByAccount_def CheckoutBook_def slice_at_def
        matchCheckout_def Let_def)
  show ?thesis
    using r a b e c checkout_then_return [OF r a b n] by simp
qed

section \<open>Decoding and encoding a command record\<close>

text \<open>
  C9. The record \<^verbatim>\<open>{"name":"ADD_BOOK","arguments":{"id":1,"name":"Dune","count":3}}\<close>
  decodes to \<^verbatim>\<open>AddBook{1, "Dune", 3}\<close>, which encodes to the same record. In
  general, a record whose members are \<^verbatim>\<open>name\<close> \<^verbatim>\<open>ADD_BOOK\<close> and \<^verbatim>\<open>arguments\<close>, in
  either order, the arguments having the members \<^verbatim>\<open>id\<close>, \<^verbatim>\<open>name\<close> and \<^verbatim>\<open>count\<close> in
  any order with integers that fit an \<^verbatim>\<open>int\<close> and a name that is valid UTF-8 (as
  every string of a record is), decodes to the command with these
  values, and the command encodes to the record with the same members in the order of
  the struct declarations.
\<close>

theorem add_book_record_round_trip:
  "UnmarshalJSON (JObject [(''name'', JString ''ADD_BOOK''), (''arguments'',
       JObject [(''id'', JInt 1), (''name'', JString ''Dune''), (''count'', JInt 3)])])
     = Inr (Cmd_AddBook 1 ''Dune'' 3)
   \<and> MarshalJSON (Cmd_AddBook 1 ''Dune'' 3)
     = Inr (JObject [(''name'', JString ''ADD_BOOK''), (''arguments'',
         JObject [(''id'', JInt 1), (''name'', JString ''Dune''), (''count'', JInt 3)])])
   \<and> (int_fits i \<and> int_fits c \<and> valid_utf8 s
       \<and> mset record = mset [(''name'', JString ''ADD_BOOK''), (''arguments'', JObject args)]
       \<and> mset args = mset [(''id'', JInt i), (''name'', JString s), (''count'', JInt c)]
      \<longrightarrow> UnmarshalJSON (JObject record) = Inr (Cmd_AddBook (word_of_int i) s (word_of_int c))
        \<and> MarshalJSON (Cmd_AddBook (word_of_int i) s (word_of_int c))
          = Inr (JObject [(''name'', JString ''ADD_BOOK''), (''arguments'',
              JObject [(''id'', JInt i), (''name'', JString s), (''count'', JInt c)])]))"
proof (intro conjI impI)
  show "UnmarshalJSON (JObject [(''name'', JString ''ADD_BOOK''), (''arguments'',
       JObject [(''id'', JInt 1), (''name'', JString ''Dune''), (''count'', JInt 3)])])
     = Inr (Cmd_AddBook 1 ''Dune'' 3)"
    by (simp add: json_defs int_fits_def)
  show "MarshalJSON (Cmd_AddBook 1 ''Dune'' 3)
     = Inr (JObject [(''name'', JString ''ADD_BOOK''), (''arguments'',
         JObject [(''id'', JInt 1), (''name'', JString ''Dune''), (''count'', JInt 3)])])"
    by (simp add: json_defs)
next
  assume h: "int_fits i \<and> int_fits c \<and> valid_utf8 s
       \<and> mset record = mset [(''name'', JString ''ADD_BOOK''), (''arguments'', JObject args)]
       \<and> mset args = mset [(''id'', JInt i), (''name'', JString s), (''count'', JInt c)]"
  then have args: "decode_object args
       [(''id'', IntValue 0), (''name'', StringValue []), (''count'', IntValue 0)]
     = Inr [(''id'', IntValue (word_of_int i)), (''name'', StringValue s),
            (''count'', IntValue (word_of_int c))]"
    by (intro decode_object_AddBook) simp_all
  from h have "record = [(''name'', JString ''ADD_BOOK''), (''arguments'', JObject args)]
      \<or> record = [(''arguments'', JObject args), (''name'', JString ''ADD_BOOK'')]"
    by (intro mset_eq_two) simp
  then show "UnmarshalJSON (JObject record)
      = Inr (Cmd_AddBook (word_of_int i) s (word_of_int c))"
    using args by (elim disjE) (simp_all add: json_defs)
  show "MarshalJSON (Cmd_AddBook (word_of_int i) s (word_of_int c))
          = Inr (JObject [(''name'', JString ''ADD_BOOK''), (''arguments'',
              JObject [(''id'', JInt i), (''name'', JString s), (''count'', JInt c)])])"
    using h by (simp add: json_defs sint_word_of_int_fits valid_utf8_def)
qed

theorem add_book_record_round_trip_witness:
  "int_fits 7 \<and> int_fits (- 2) \<and> valid_utf8 ''Emma''
   \<and> mset [(''arguments'', JObject [(''count'', JInt (- 2)), (''id'', JInt 7), (''name'', JString ''Emma'')]),
            (''name'', JString ''ADD_BOOK'')]
      = mset [(''name'', JString ''ADD_BOOK''),
            (''arguments'', JObject [(''count'', JInt (- 2)), (''id'', JInt 7), (''name'', JString ''Emma'')])]
   \<and> mset [(''count'', JInt (- 2)), (''id'', JInt 7), (''name'', JString ''Emma'')]
      = mset [(''id'', JInt 7), (''name'', JString ''Emma''), (''count'', JInt (- 2))]
   \<and> UnmarshalJSON (JObject
        [(''arguments'', JObject [(''count'', JInt (- 2)), (''id'', JInt 7), (''name'', JString ''Emma'')]),
         (''name'', JString ''ADD_BOOK'')])
      = Inr (Cmd_AddBook 7 ''Emma'' (- 2))
   \<and> MarshalJSON (Cmd_AddBook 7 ''Emma'' (- 2))
      = Inr (JObject [(''name'', JString ''ADD_BOOK''), (''arguments'',
              JObject [(''id'', JInt 7), (''name'', JString ''Emma''), (''count'', JInt (- 2))])])"
proof -
  have f: "int_fits 7" "int_fits (- 2)" "valid_utf8 ''Emma''"
    by (simp_all add: int_fits_def valid_utf8_def coerce_utf8_literals)
  have m: "mset [(''arguments'', JObject [(''count'', JInt (- 2)), (''id'', JInt 7), (''name'', JString ''Emma'')]),
            (''name'', JString ''ADD_BOOK'')]
      = mset [(''name'', JString ''ADD_BOOK''),
            (''arguments'', JObject [(''count'', JInt (- 2)), (''id'', JInt 7), (''name'', JString ''Emma'')])]"
    "mset [(''count'', JInt (- 2)), (''id'', JInt 7), (''name'', JString ''Emma'')]
      = mset [(''id'', JInt 7), (''name'', JString ''Emma''), (''count'', JInt (- 2))]"
    by simp_all
  show ?thesis
    using f m add_book_record_round_trip [of 7 "- 2" "''Emma''"
        "[(''arguments'', JObject [(''count'', JInt (- 2)), (''id'', JInt 7), (''name'', JString ''Emma'')]),
         (''name'', JString ''ADD_BOOK'')]"
        "[(''count'', JInt (- 2)), (''id'', JInt 7), (''name'', JString ''Emma'')]"]
    by simp
qed

text \<open>
  C8. When the name that the first decoding step reads from a record is none of the
  eight command names, \<^verbatim>\<open>UnmarshalJSON\<close> fails with the unknown-command error for that
  name. The arguments are not decoded before: a record with such a name fails with this
  error whatever value its \<^verbatim>\<open>arguments\<close> member holds, also one that no argument
  struct accepts.
\<close>

theorem unknown_command_name:
  "(json_Unmarshal (Some bs) (Command [] None) = Inr RawCommand
      \<and> get_string RawCommand ''name'' \<notin> set command_names
     \<longrightarrow> UnmarshalJSON bs = Inl (ErrUnmarshalUnknownCommand (get_string RawCommand ''name'')))
   \<and> (name \<notin> set command_names
     \<longrightarrow> UnmarshalJSON (JObject [(''name'', JString name), (''arguments'', arguments)])
           = Inl (ErrUnmarshalUnknownCommand name))"
proof (intro conjI impI)
  assume "json_Unmarshal (Some bs) (Command [] None) = Inr RawCommand
      \<and> get_string RawCommand ''name'' \<notin> set command_names"
  then show "UnmarshalJSON bs = Inl (ErrUnmarshalUnknownCommand (get_string RawCommand ''name''))"
    by (simp add: UnmarshalJSON_def command_names_def)
next
  assume "name \<notin> set command_names"
  then show "UnmarshalJSON (JObject [(''name'', JString name), (''arguments'', arguments)])
           = Inl (ErrUnmarshalUnknownCommand name)"
    by (simp add: json_defs command_names_def)
qed

theorem unknown_command_name_witness:
  "json_Unmarshal (Some (JObject [(''arguments'', JArray [JBool True]), (''name'', JString ''BURN_BOOK'')]))
       (Command [] None)
     = Inr (Command ''BURN_BOOK'' (Some (JArray [JBool True])))
   \<and> get_string (Command ''BURN_BOOK'' (Some (JArray [JBool True]))) ''name'' = ''BURN_BOOK''
   \<and> ''BURN_BOOK'' \<notin> set command_names
   \<and> UnmarshalJSON (JObject [(''arguments'', JArray [JBool True]), (''name'', JString ''BURN_BOOK'')])
       = Inl (ErrUnmarshalUnknownCommand ''BURN_BOOK'')
   \<and> UnmarshalJSON (JObject [(''name'', JString ''BURN_BOOK''), (''arguments'', JString ''x'')])
       = Inl (ErrUnmarshalUnknownCommand ''BURN_BOOK'')
   \<and> UnmarshalJSON (JObject [(''name'', JString ''ADD_BOOK''), (''arguments'', JString ''x'')])
       = Inl ErrUnmarshalType"
proof -
  have d: "json_Unmarshal (Some (JObject [(''arguments'', JArray [JBool True]), (''name'', JString ''BURN_BOOK'')]))
       (Command [] None)
     = Inr (Command ''BURN_BOOK'' (Some (JArray [JBool True])))"
    by (simp add: json_defs)
  have g: "get_string (Command ''BURN_BOOK'' (Some (JArray [JBool True]))) ''name'' = ''BURN_BOOK''"
    by (simp add: json_defs)
  have n: "''BURN_BOOK'' \<notin> set command_names"
    by (simp add: command_names_def)
  have t: "UnmarshalJSON (JObject [(''name'', JString ''ADD_BOOK''), (''arguments'', JString ''x'')])
       = Inl ErrUnmarshalType"
    by (simp add: json_defs)
  show ?thesis
    using d g n t
      unknown_command_name [of "JObject [(''arguments'', JArray [JBool True]), (''name'', JString ''BURN_BOOK'')]"
        "Command ''BURN_BOOK'' (Some (JArray [JBool True]))" "''BURN_BOOK''" "JString ''x''"]
    by simp
qed

section \<open>Export and import\<close>

text \<open>
  C2. The claim is that the export of every reachable store imports into an empty store
  without error and rebuilds the books, the accounts and the checkouts. \<^verbatim>\<open>AddCopies\<close>
  adds to \<^verbatim>\<open>Book.Count\<close> without a bound: one copy added to a book that has the
  largest \<^verbatim>\<open>int\<close> of copies wraps the count to the smallest \<^verbatim>\<open>int\<close>. The export of
  this reachable store is one \<^verbatim>\<open>ADD_BOOK\<close> record with that negative count, and its
  import fails with "cannot add negative copies" on an empty store.
\<close>

theorem export_of_overflowed_count:
  "reachable overflowed
   \<and> fst (Exec (Cmd_AddBook 1 ''Dune'' 9223372036854775807) New) = None
   \<and> fst (Exec (Cmd_AddCopies 1 1) (snd (Exec (Cmd_AddBook 1 ''Dune'' 9223372036854775807) New))) = None
   \<and> map_option (\<lambda>book. sint (Book_Count book)) (books overflowed 1) = Some (- 9223372036854775808)
   \<and> iteration_order (books overflowed) [1]
   \<and> iteration_order (accounts overflowed) []
   \<and> iteration_order (checkoutsByAccount overflowed) []
   \<and> Export [1] [] [] overflowed
       = Inr [JObject [(''name'', JString ''ADD_BOOK''), (''arguments'',
           JObject [(''id'', JInt 1), (''name'', JString ''Dune''),
                    (''count'', JInt (- 9223372036854775808))])]]
   \<and> Import [JObject [(''name'', JString ''ADD_BOOK''), (''arguments'',
           JObject [(''id'', JInt 1), (''name'', JString ''Dune''),
                    (''count'', JInt (- 9223372036854775808))])]] New
       = (Some ErrAddNegativeCopies, New)"
proof -
  have r: "reachable overflowed"
    unfolding overflowed_def by (rule reachable_run) (rule reachable_New)
  have s: "fst (Exec (Cmd_AddBook 1 ''Dune'' 9223372036854775807) New) = None"
    "fst (Exec (Cmd_AddCopies 1 1) (snd (Exec (Cmd_AddBook 1 ''Dune'' 9223372036854775807) New))) = None"
    by (simp_all add: eval_defs)
  have c: "map_option (\<lambda>book. sint (Book_Count book)) (books overflowed 1) = Some (- 9223372036854775808)"
    by (simp add: overflowed_eq)
  have o: "iteration_order (books overflowed) [1]" "iteration_order (accounts overflowed) []"
    "iteration_order (checkoutsByAccount overflowed) []"
    by (simp_all add: overflowed_eq iteration_order_def)
  have e: "Export [1] [] [] overflowed
       = Inr [JObject [(''name'', JString ''ADD_BOOK''), (''arguments'',
           JObject [(''id'', JInt 1), (''name'', JString ''Dune''),
                    (''count'', JInt (- 9223372036854775808))])]]"
    by (simp add: overflowed_eq Export_def exported_commands_def List.map_filter_def json_defs)
  have i: "Import [JObject [(''name'', JString ''ADD_BOOK''), (''arguments'',
           JObject [(''id'', JInt 1), (''name'', JString ''Dune''),
                    (''count'', JInt (- 9223372036854775808))])]] New
       = (Some ErrAddNegativeCopies, New)"
    by (simp add: json_defs int_fits_def AddBook_def New_def)
  show ?thesis
    using r s c o e i by simp
qed

text \<open>
  Where no count is negative and every name is valid UTF-8 the round trip holds. For
  every such reachable store and for every order in which the three loops of \<^verbatim>\<open>Export\<close> visit the
  keys, the export is written without error, its import into the empty store returns
  no error, and the store it builds has the same books and accounts, for every account
  the same list of checkouts in the same order, and for every book the same set of
  checkouts. Such orders exist, since the maps of a reachable store are finite.
\<close>

theorem export_import_round_trip:
  assumes r: "reachable l" and n: "counts_not_negative l" and v: "names_valid_utf8 l"
    and ob: "iteration_order (books l) bks"
    and oa: "iteration_order (accounts l) aks"
    and oc: "iteration_order (checkoutsByAccount l) cks"
  shows "\<exists>out l'. Export bks aks cks l = Inr out \<and> Import out New = (None, l')
     \<and> books l' = books l \<and> accounts l' = accounts l
     \<and> CheckoutsByAccount l' = CheckoutsByAccount l
     \<and> (\<forall>b. set (CheckoutsByBook l' b) = set (CheckoutsByBook l b))"
proof -
  have ok: "store_ok l" using r by (rule reachable_store_ok)
  then have K: "keys_are_ids l" and A: "account_index_ok l" and B: "book_index_ok l"
    by (simp_all add: store_ok_def)
  let ?B = "List.map_filter (\<lambda>k. map_option
        (\<lambda>book. Cmd_AddBook (Book_ID book) (Book_Name book) (Book_Count book)) (books l k)) bks"
  let ?A = "List.map_filter (\<lambda>k. map_option
        (\<lambda>account. Cmd_CreateAccount (Account_ID account) (Account_Name account)) (accounts l k)) aks"
  let ?C = "concat (map (\<lambda>k. map (\<lambda>c. Cmd_CheckoutBook (AccountID c) (BookID c))
        (CheckoutsByAccount l k)) cks)"
  have cmds: "exported_commands bks aks cks l = ?B @ ?A @ ?C"
    by (simp add: exported_commands_def CheckoutsByAccount_def)
  let ?l1 = "New\<lparr>books := books l\<rparr>"
  let ?l2 = "New\<lparr>books := books l, accounts := accounts l\<rparr>"
  have "Exec_all ?B New = (None, New\<lparr>books := books New ++ (books l |` set bks)\<rparr>)"
  proof (rule replay_books)
    show "distinct bks" using ob by (simp add: iteration_order_def)
    show "\<forall>k \<in> set bks. \<exists>book. books l k = Some book \<and> Book_ID book = k
        \<and> 0 \<le> sint (Book_Count book)"
      using ob K n by (auto simp: iteration_order_def keys_are_ids_def counts_not_negative_def)
    show "\<forall>k \<in> set bks. books New k = None" by (simp add: New_def)
  qed
  moreover have "books New ++ (books l |` set bks) = books l"
    using ob by (simp add: New_def iteration_order_def restrict_map_dom)
  ultimately have eB: "Exec_all ?B New = (None, ?l1)" by simp
  have "Exec_all ?A ?l1 = (None, ?l1\<lparr>accounts := accounts ?l1 ++ (accounts l |` set aks)\<rparr>)"
  proof (rule replay_accounts)
    show "distinct aks" using oa by (simp add: iteration_order_def)
    show "\<forall>k \<in> set aks. \<exists>account. accounts l k = Some account \<and> Account_ID account = k"
      using oa K by (auto simp: iteration_order_def keys_are_ids_def)
    show "\<forall>k \<in> set aks. accounts ?l1 k = None" by (simp add: New_def)
  qed
  moreover have "accounts ?l1 ++ (accounts l |` set aks) = accounts l"
    using oa by (simp add: New_def iteration_order_def restrict_map_dom)
  ultimately have eA: "Exec_all ?A ?l1 = (None, ?l2)" by simp
  have e2: "CheckoutsByAccount ?l2 k = []" "CheckoutsByBook ?l2 k = []" for k
    by (simp_all add: CheckoutsByAccount_def CheckoutsByBook_def slice_at_def New_def)
  have "\<exists>l'. Exec_all ?C ?l2 = (None, l')
     \<and> (\<forall>k. CheckoutsByAccount l' k
            = (if k \<in> set cks then CheckoutsByAccount l k else CheckoutsByAccount ?l2 k))
     \<and> (\<forall>b. CheckoutsByBook l' b = CheckoutsByBook ?l2 b
            @ filter (\<lambda>c. BookID c = b) (concat (map (CheckoutsByAccount l) cks)))
     \<and> books l' = books ?l2 \<and> accounts l' = accounts ?l2"
  proof (rule replay_checkouts)
    show "distinct cks" using oc by (simp add: iteration_order_def)
    show "\<forall>k \<in> set cks. CheckoutsByAccount ?l2 k = []" by (simp add: e2)
    show "\<forall>k \<in> set cks. length (CheckoutsByAccount l k) \<le> 4 \<and> distinct (CheckoutsByAccount l k)
           \<and> (CheckoutsByAccount l k \<noteq> []
                \<longrightarrow> (\<exists>account. accounts ?l2 k = Some account \<and> Account_ID account = k))
           \<and> (\<forall>c \<in> set (CheckoutsByAccount l k). AccountID c = k
                 \<and> (\<exists>book. books ?l2 (BookID c) = Some book \<and> Book_ID book = BookID c))"
    proof (intro ballI conjI impI)
      fix k
      show "length (CheckoutsByAccount l k) \<le> 4" "distinct (CheckoutsByAccount l k)"
        using A by (simp_all add: account_index_ok_def)
      show "\<exists>account. accounts ?l2 k = Some account \<and> Account_ID account = k"
        if "CheckoutsByAccount l k \<noteq> []"
      proof -
        from that obtain c where "c \<in> set (CheckoutsByAccount l k)"
          by (cases "CheckoutsByAccount l k") auto
        with A have "accounts l k \<noteq> None" by (auto simp: account_index_ok_def)
        with K show ?thesis by (auto simp: keys_are_ids_def)
      qed
      fix c assume c: "c \<in> set (CheckoutsByAccount l k)"
      show "AccountID c = k" using A c by (auto simp: account_index_ok_def)
      from A c have "books l (BookID c) \<noteq> None" by (auto simp: account_index_ok_def)
      with K show "\<exists>book. books ?l2 (BookID c) = Some book \<and> Book_ID book = BookID c"
        by (auto simp: keys_are_ids_def)
    qed
  qed
  then obtain l' where eC: "Exec_all ?C ?l2 = (None, l')"
    and ca: "\<forall>k. CheckoutsByAccount l' k = (if k \<in> set cks then CheckoutsByAccount l k else [])"
    and cb: "\<forall>b. CheckoutsByBook l' b
        = filter (\<lambda>c. BookID c = b) (concat (map (CheckoutsByAccount l) cks))"
    and same: "books l' = books l" "accounts l' = accounts l"
    by (auto simp: e2)
  have all: "Exec_all (exported_commands bks aks cks l) New = (None, l')"
    by (simp add: cmds Exec_all_append eB eA eC)
  obtain out where enc: "Encode (exported_commands bks aks cks l) = Inr out"
    using Encode_total [OF exported_commands_known] by blast
  have imp: "Import out New = (None, l')"
    using Import_Encode [OF enc exported_commands_valid [OF v]] all by simp
  have nokey: "CheckoutsByAccount l k = []" if "k \<notin> set cks" for k
    using that oc
    by (auto simp: iteration_order_def CheckoutsByAccount_def slice_at_def split: option.splits)
  have byacc: "CheckoutsByAccount l' = CheckoutsByAccount l"
    by (rule ext) (simp add: ca nokey)
  have bybook: "set (CheckoutsByBook l' b) = set (CheckoutsByBook l b)" for b
  proof (intro equalityI subsetI)
    fix c assume "c \<in> set (CheckoutsByBook l' b)"
    then obtain k where "c \<in> set (CheckoutsByAccount l k)" "BookID c = b"
      by (auto simp: cb)
    with A show "c \<in> set (CheckoutsByBook l b)"
      by (auto simp: account_index_ok_def)
  next
    fix c assume c: "c \<in> set (CheckoutsByBook l b)"
    with B have b: "BookID c = b" and a: "c \<in> set (CheckoutsByAccount l (AccountID c))"
      by (auto simp: book_index_ok_def)
    from a nokey have "AccountID c \<in> set cks" by fastforce
    with a b show "c \<in> set (CheckoutsByBook l' b)"
      by (auto simp: cb)
  qed
  show ?thesis
    using enc imp same byacc bybook by (auto simp: Export_def)
qed

theorem export_import_round_trip_witness:
  "reachable dune_scenario \<and> counts_not_negative dune_scenario
   \<and> names_valid_utf8 dune_scenario
   \<and> iteration_order (books dune_scenario) [1]
   \<and> iteration_order (accounts dune_scenario) [10]
   \<and> iteration_order (checkoutsByAccount dune_scenario) [10]
   \<and> Export [1] [10] [10] dune_scenario
      = Inr [JObject [(''name'', JString ''ADD_BOOK''), (''arguments'',
               JObject [(''id'', JInt 1), (''name'', JString ''Dune''), (''count'', JInt 2)])],
             JObject [(''name'', JString ''CREATE_ACCOUNT''), (''arguments'',
               JObject [(''id'', JInt 10), (''name'', JString ''Ada'')])],
             JObject [(''name'', JString ''CHECKOUT_BOOK''), (''arguments'',
               JObject [(''accountId'', JInt 10), (''bookId'', JInt 1)])]]
   \<and> (\<exists>out l'. Export [1] [10] [10] dune_scenario = Inr out \<and> Import out New = (None, l')
       \<and> books l' = books dune_scenario \<and> accounts l' = accounts dune_scenario
       \<and> CheckoutsByAccount l' = CheckoutsByAccount dune_scenario
       \<and> (\<forall>b. set (CheckoutsByBook l' b) = set (CheckoutsByBook dune_scenario b)))"
proof -
  have d: "dune_scenario = run [Cmd_AddBook 1 ''Dune'' 2, Cmd_CreateAccount 10 ''Ada'',
      Cmd_CheckoutBook 10 1] New"
    by (simp add: dune_scenario_def run_def)
  have r: "reachable dune_scenario"
    by (subst d) (rule reachable_run [OF reachable_New])
  have n: "counts_not_negative dune_scenario"
    by (simp add: counts_not_negative_def dune_scenario_eq)
  have v: "names_valid_utf8 dune_scenario"
    by (simp add: names_valid_utf8_def valid_utf8_def dune_scenario_eq coerce_utf8_literals)
  have o: "iteration_order (books dune_scenario) [1]"
    "iteration_order (accounts dune_scenario) [10]"
    "iteration_order (checkoutsByAccount dune_scenario) [10]"
    by (simp_all add: iteration_order_def dune_scenario_eq)
  have e: "Export [1] [10] [10] dune_scenario
      = Inr [JObject [(''name'', JString ''ADD_BOOK''), (''arguments'',
               JObject [(''id'', JInt 1), (''name'', JString ''Dune''), (''count'', JInt 2)])],
             JObject [(''name'', JString ''CREATE_ACCOUNT''), (''arguments'',
               JObject [(''id'', JInt 10), (''name'', JString ''Ada'')])],
             JObject [(''name'', JString ''CHECKOUT_BOOK''), (''arguments'',
               JObject [(''accountId'', JInt 10), (''bookId'', JInt 1)])]]"
    by (simp add: dune_scenario_eq Export_def exported_commands_def List.map_filter_def
        json_defs slice_at_def)
  show ?thesis
    using r n v o e export_import_round_trip [OF r n v o] by simp
qed

text \<open>
  A name that is not valid UTF-8 does not survive: the export writes U+FFFD for the
  offending byte, and the import, which succeeds, builds a store whose book has the
  rewritten name. Such a name can only come from a direct call of the store, since a
  decoded name is valid UTF-8.
\<close>

lemma export_of_invalid_name:
  "reachable invalid_name
   \<and> books invalid_name 1 = Some \<lparr>Book_ID = 1, Book_Name = [CHR 0xFF], Book_Count = 1\<rparr>
   \<and> \<not> valid_utf8 [CHR 0xFF]
   \<and> Export [1] [] [] invalid_name
       = Inr [JObject [(''name'', JString ''ADD_BOOK''), (''arguments'',
           JObject [(''id'', JInt 1), (''name'', JString [CHR 0xEF, CHR 0xBF, CHR 0xBD]),
                    (''count'', JInt 1)])]]
   \<and> fst (Import [JObject [(''name'', JString ''ADD_BOOK''), (''arguments'',
           JObject [(''id'', JInt 1), (''name'', JString [CHR 0xEF, CHR 0xBF, CHR 0xBD]),
                    (''count'', JInt 1)])]] New) = None
   \<and> books (snd (Import [JObject [(''name'', JString ''ADD_BOOK''), (''arguments'',
           JObject [(''id'', JInt 1), (''name'', JString [CHR 0xEF, CHR 0xBF, CHR 0xBD]),
                    (''count'', JInt 1)])]] New)) 1
       = Some \<lparr>Book_ID = 1, Book_Name = [CHR 0xEF, CHR 0xBF, CHR 0xBD], Book_Count = 1\<rparr>"
proof -
  have r: "reachable invalid_name"
    unfolding invalid_name_def by (rule reachable_run) (rule reachable_New)
  have c: "coerce_utf8 [CHR 0xFF] = [CHR 0xEF, CHR 0xBF, CHR 0xBD]"
    by code_simp
  have q: "invalid_name = New\<lparr>books :=
      [1 \<mapsto> \<lparr>Book_ID = 1, Book_Name = [CHR 0xFF], Book_Count = 1\<rparr>]\<rparr>"
    by (simp add: invalid_name_def eval_defs)
  have n: "\<not> valid_utf8 [CHR 0xFF]"
    by (simp add: valid_utf8_def c)
  have e: "Export [1] [] [] invalid_name
       = Inr [JObject [(''name'', JString ''ADD_BOOK''), (''arguments'',
           JObject [(''id'', JInt 1), (''name'', JString [CHR 0xEF, CHR 0xBF, CHR 0xBD]),
                    (''count'', JInt 1)])]]"
    by (simp add: q New_def Export_def exported_commands_def List.map_filter_def json_defs c)
  have i: "Import [JObject [(''name'', JString ''ADD_BOOK''), (''arguments'',
           JObject [(''id'', JInt 1), (''name'', JString [CHR 0xEF, CHR 0xBF, CHR 0xBD]),
                    (''count'', JInt 1)])]] New
      = (None, New\<lparr>books :=
          [1 \<mapsto> \<lparr>Book_ID = 1, Book_Name = [CHR 0xEF, CHR 0xBF, CHR 0xBD], Book_Count = 1\<rparr>]\<rparr>)"
    by (simp add: json_defs int_fits_def AddBook_def New_def)
  have i1: "fst (Import [JObject [(''name'', JString ''ADD_BOOK''), (''arguments'',
           JObject [(''id'', JInt 1), (''name'', JString [CHR 0xEF, CHR 0xBF, CHR 0xBD]),
                    (''count'', JInt 1)])]] New) = None"
    unfolding i by simp
  have i2: "books (snd (Import [JObject [(''name'', JString ''ADD_BOOK''), (''arguments'',
           JObject [(''id'', JInt 1), (''name'', JString [CHR 0xEF, CHR 0xBF, CHR 0xBD]),
                    (''count'', JInt 1)])]] New)) 1
       = Some \<lparr>Book_ID = 1, Book_Name = [CHR 0xEF, CHR 0xBF, CHR 0xBD], Book_Count = 1\<rparr>"
    unfolding i by simp
  have b: "books invalid_name 1 = Some \<lparr>Book_ID = 1, Book_Name = [CHR 0xFF], Book_Count = 1\<rparr>"
    by (simp add: q)
  show ?thesis
    using r b n e i1 i2 by blast
qed

end
